theory Spec2Isabelle
  imports Main "HOL-Library.Multiset" "HOL-Library.Word" "HOL-Library.List_Lexorder"
begin

section \<open>QueueSet: the work list of the fixpoint engine (ExprUtils.h)\<close>

text \<open>
  \<^verbatim>\<open>QueueSet<T>\<close> holds a \<^verbatim>\<open>std::queue<T *> _queue\<close> and an
  \<^verbatim>\<open>llvm::DenseSet<T *> _set\<close>. The queue is a list whose head is the front;
  the set is a HOL set. \<^verbatim>\<open>next()\<close> reads \<^verbatim>\<open>_queue.front()\<close>, which is
  undefined on an empty queue, so the model returns an option.
\<close>

record 'a QueueSet =
  qs_queue :: "'a list"
  qs_set :: "'a set"

definition QueueSet_init :: "'a QueueSet" where
  "QueueSet_init = \<lparr>qs_queue = [], qs_set = {}\<rparr>"

definition qs_next :: "'a QueueSet \<Rightarrow> 'a option" where
  "qs_next Q = (case qs_queue Q of [] \<Rightarrow> None | B # _ \<Rightarrow> Some B)"

definition qs_remove :: "'a \<Rightarrow> 'a QueueSet \<Rightarrow> 'a QueueSet" where
  "qs_remove B Q =
     (if qs_queue Q = [] then Q
      else \<lparr>qs_queue = tl (qs_queue Q), qs_set = qs_set Q - {B}\<rparr>)"

definition qs_append :: "'a \<Rightarrow> 'a QueueSet \<Rightarrow> 'a QueueSet" where
  "qs_append B Q =
     (if B \<notin> qs_set Q
      then \<lparr>qs_queue = qs_queue Q @ [B], qs_set = insert B (qs_set Q)\<rparr>
      else Q)"

definition qs_empty :: "'a QueueSet \<Rightarrow> bool" where
  "qs_empty Q = (qs_queue Q = [])"

text \<open>A client's calls, as data, and their effect in sequence.\<close>

datatype 'a qs_op = Append 'a | Remove 'a

fun qs_apply :: "'a qs_op \<Rightarrow> 'a QueueSet \<Rightarrow> 'a QueueSet" where
  "qs_apply (Append B) Q = qs_append B Q"
| "qs_apply (Remove B) Q = qs_remove B Q"

fun qs_run :: "'a qs_op list \<Rightarrow> 'a QueueSet \<Rightarrow> 'a QueueSet" where
  "qs_run [] Q = Q"
| "qs_run (x # xs) Q = qs_run xs (qs_apply x Q)"

text \<open>
  The discipline of the fixpoint loop, which always calls \<^verbatim>\<open>remove(next())\<close>:
  every \<^verbatim>\<open>remove\<close> on a non-empty queue names the element at the front.
\<close>

fun removes_front :: "'a qs_op list \<Rightarrow> 'a QueueSet \<Rightarrow> bool" where
  "removes_front [] Q = True"
| "removes_front (Append B # xs) Q = removes_front xs (qs_append B Q)"
| "removes_front (Remove B # xs) Q =
     ((qs_queue Q = [] \<or> qs_next Q = Some B) \<and> removes_front xs (qs_remove B Q))"

text \<open>The queue and the set agree: the same elements, each once in the queue.\<close>

definition qs_consistent :: "'a QueueSet \<Rightarrow> bool" where
  "qs_consistent Q = (distinct (qs_queue Q) \<and> set (qs_queue Q) = qs_set Q)"

section \<open>The host's expressions\<close>

text \<open>
  The canonicaliser (\<^verbatim>\<open>PreorderAST.cpp\<close>) reads clang expressions. Only the shapes
  that \<^verbatim>\<open>PreorderAST::Create\<close> tells apart are kept: binary and unary operators,
  member accesses, array subscripts, implicit casts, parentheses, integer literals and
  references to declarations; every other expression is opaque. Operator kinds carry
  the numbering of clang's enumerations, which \<^verbatim>\<open>Compare\<close> orders them by.
  An \<^verbatim>\<open>llvm::APInt\<close> of the target's \<^verbatim>\<open>int\<close> width is a 32-bit word.
\<close>

datatype BinaryOperatorKind =
    BO_Mul | BO_Div | BO_Rem | BO_Add | BO_Sub | BO_Shl | BO_Shr
  | BO_LT | BO_GT | BO_LE | BO_GE | BO_EQ | BO_NE
  | BO_And | BO_Xor | BO_Or | BO_LAnd | BO_LOr

datatype UnaryOperatorKind =
    UO_PostInc | UO_PostDec | UO_PreInc | UO_PreDec | UO_AddrOf | UO_Deref
  | UO_Plus | UO_Minus | UO_Not | UO_LNot

fun BinaryOperatorKind_code :: "BinaryOperatorKind \<Rightarrow> nat" where
  "BinaryOperatorKind_code BO_Mul = 2"
| "BinaryOperatorKind_code BO_Div = 3"
| "BinaryOperatorKind_code BO_Rem = 4"
| "BinaryOperatorKind_code BO_Add = 5"
| "BinaryOperatorKind_code BO_Sub = 6"
| "BinaryOperatorKind_code BO_Shl = 7"
| "BinaryOperatorKind_code BO_Shr = 8"
| "BinaryOperatorKind_code BO_LT = 10"
| "BinaryOperatorKind_code BO_GT = 11"
| "BinaryOperatorKind_code BO_LE = 12"
| "BinaryOperatorKind_code BO_GE = 13"
| "BinaryOperatorKind_code BO_EQ = 14"
| "BinaryOperatorKind_code BO_NE = 15"
| "BinaryOperatorKind_code BO_And = 16"
| "BinaryOperatorKind_code BO_Xor = 17"
| "BinaryOperatorKind_code BO_Or = 18"
| "BinaryOperatorKind_code BO_LAnd = 19"
| "BinaryOperatorKind_code BO_LOr = 20"

fun UnaryOperatorKind_code :: "UnaryOperatorKind \<Rightarrow> nat" where
  "UnaryOperatorKind_code UO_PostInc = 0"
| "UnaryOperatorKind_code UO_PostDec = 1"
| "UnaryOperatorKind_code UO_PreInc = 2"
| "UnaryOperatorKind_code UO_PreDec = 3"
| "UnaryOperatorKind_code UO_AddrOf = 4"
| "UnaryOperatorKind_code UO_Deref = 5"
| "UnaryOperatorKind_code UO_Plus = 6"
| "UnaryOperatorKind_code UO_Minus = 7"
| "UnaryOperatorKind_code UO_Not = 8"
| "UnaryOperatorKind_code UO_LNot = 9"

type_synonym APInt = "32 word"

type_synonym CastKind = nat

type_synonym ValueDecl = nat

datatype Expr =
    IntegerLiteral APInt
  | DeclRefExpr ValueDecl
  | BinaryOperator BinaryOperatorKind "Expr" "Expr"
  | UnaryOperator UnaryOperatorKind "Expr"
  | MemberExpr "Expr" ValueDecl bool
  | ArraySubscriptExpr "Expr" "Expr"
  | ImplicitCastExpr CastKind "Expr"
  | ParenExpr "Expr"
  | OpaqueExpr nat

text \<open>
  \<^verbatim>\<open>Lexicographic\<close> is the host's comparator of expressions and declarations. Its
  code is not part of the sources at hand, so it is a parameter of the model: a record
  of the three operations that \<^verbatim>\<open>PreorderAST.cpp\<close> calls.
\<close>

datatype Result = LessThan | Equal | GreaterThan

record Lexicographic =
  CompareExpr :: "Expr \<Rightarrow> Expr \<Rightarrow> Result"
  CompareDecl :: "ValueDecl \<Rightarrow> ValueDecl \<Rightarrow> Result"
  IsValuePreserving :: "CastKind \<Rightarrow> bool"

section \<open>Nodes of the preorder AST\<close>

text \<open>
  A node is one of the five classes that \<^verbatim>\<open>PreorderAST.cpp\<close> creates with
  \<^verbatim>\<open>new\<close>. The \<^verbatim>\<open>Parent\<close> pointer of a node is not stored: the functions
  that read it (\<^verbatim>\<open>AttachNode\<close>, \<^verbatim>\<open>CanCoalesce\<close>) take what they read of the
  parent as an argument.
\<close>

datatype Node =
    BinaryOperatorNode BinaryOperatorKind "Node list"
  | UnaryOperatorNode UnaryOperatorKind "Node"
  | MemberNode ValueDecl bool "Node"
  | ImplicitCastNode CastKind "Node"
  | LeafExprNode "Expr"

datatype NodeKind =
  BinaryOperatorNodeKind | UnaryOperatorNodeKind | MemberNodeKind | ImplicitCastNodeKind | LeafExprNodeKind

fun NodeKind_code :: "NodeKind \<Rightarrow> nat" where
  "NodeKind_code BinaryOperatorNodeKind = 0"
| "NodeKind_code UnaryOperatorNodeKind = 1"
| "NodeKind_code MemberNodeKind = 2"
| "NodeKind_code ImplicitCastNodeKind = 3"
| "NodeKind_code LeafExprNodeKind = 4"

fun Kind :: "Node \<Rightarrow> NodeKind" where
  "Kind (BinaryOperatorNode _ _) = BinaryOperatorNodeKind"
| "Kind (UnaryOperatorNode _ _) = UnaryOperatorNodeKind"
| "Kind (MemberNode _ _ _) = MemberNodeKind"
| "Kind (ImplicitCastNode _ _) = ImplicitCastNodeKind"
| "Kind (LeafExprNode _) = LeafExprNodeKind"

text \<open>
  Modelled from the spec: \<^verbatim>\<open>Node::CompareKinds\<close> is declared in
  \<^verbatim>\<open>PreorderAST.h\<close>, which is not part of the sources at hand. The spec says that
  comparison goes ``first by node-kind tag''; the tags are numbered in the order of the
  node classes.
\<close>

definition CompareInteger :: "nat \<Rightarrow> nat \<Rightarrow> Result" where
  "CompareInteger a b = (if a < b then LessThan else if b < a then GreaterThan else Equal)"

definition CompareKinds :: "Node \<Rightarrow> Node \<Rightarrow> Result" where
  "CompareKinds N Other = CompareInteger (NodeKind_code (Kind N)) (NodeKind_code (Kind Other))"

text \<open>
  \<^verbatim>\<open>Compare\<close> of the five node classes (lines 632--728). The loop over the children
  of two binary nodes is \<^verbatim>\<open>CompareChildren\<close>; it is only entered on lists of the
  same length.
\<close>

fun Compare :: "Lexicographic \<Rightarrow> Node \<Rightarrow> Node \<Rightarrow> Result"
  and CompareChildren :: "Lexicographic \<Rightarrow> Node list \<Rightarrow> Node list \<Rightarrow> Result"
where
  "Compare Lex (BinaryOperatorNode Opc Children) Other =
     (if CompareKinds (BinaryOperatorNode Opc Children) Other \<noteq> Equal
      then CompareKinds (BinaryOperatorNode Opc Children) Other
      else (case Other of
        BinaryOperatorNode BOpc BChildren \<Rightarrow>
          if BinaryOperatorKind_code Opc < BinaryOperatorKind_code BOpc then LessThan
          else if BinaryOperatorKind_code Opc > BinaryOperatorKind_code BOpc then GreaterThan
          else if length Children < length BChildren then LessThan
          else if length Children > length BChildren then GreaterThan
          else CompareChildren Lex Children BChildren
      | _ \<Rightarrow> Equal))"
| "Compare Lex (UnaryOperatorNode Opc Child) Other =
     (if CompareKinds (UnaryOperatorNode Opc Child) Other \<noteq> Equal
      then CompareKinds (UnaryOperatorNode Opc Child) Other
      else (case Other of
        UnaryOperatorNode UOpc UChild \<Rightarrow>
          if UnaryOperatorKind_code Opc < UnaryOperatorKind_code UOpc then LessThan
          else if UnaryOperatorKind_code Opc > UnaryOperatorKind_code UOpc then GreaterThan
          else Compare Lex Child UChild
      | _ \<Rightarrow> Equal))"
| "Compare Lex (MemberNode FieldD IsArrow Base) Other =
     (if CompareKinds (MemberNode FieldD IsArrow Base) Other \<noteq> Equal
      then CompareKinds (MemberNode FieldD IsArrow Base) Other
      else (case Other of
        MemberNode MField MIsArrow MBase \<Rightarrow>
          if IsArrow \<and> \<not> MIsArrow then LessThan
          else if \<not> IsArrow \<and> MIsArrow then GreaterThan
          else if CompareDecl Lex FieldD MField \<noteq> Equal then CompareDecl Lex FieldD MField
          else Compare Lex Base MBase
      | _ \<Rightarrow> Equal))"
| "Compare Lex (ImplicitCastNode CK Child) Other =
     (if CompareKinds (ImplicitCastNode CK Child) Other \<noteq> Equal
      then CompareKinds (ImplicitCastNode CK Child) Other
      else (case Other of
        ImplicitCastNode ICK IChild \<Rightarrow>
          if CK < ICK then LessThan
          else if CK > ICK then GreaterThan
          else Compare Lex Child IChild
      | _ \<Rightarrow> Equal))"
| "Compare Lex (LeafExprNode E) Other =
     (if CompareKinds (LeafExprNode E) Other \<noteq> Equal
      then CompareKinds (LeafExprNode E) Other
      else (case Other of
        LeafExprNode LE \<Rightarrow> CompareExpr Lex E LE
      | _ \<Rightarrow> Equal))"
| "CompareChildren Lex [] Others = Equal"
| "CompareChildren Lex (Child1 # Children) [] = Equal"
| "CompareChildren Lex (Child1 # Children) (Child2 # BChildren) =
     (if Compare Lex Child1 Child2 \<noteq> Equal then Compare Lex Child1 Child2
      else CompareChildren Lex Children BChildren)"

section \<open>Building the tree: \<^verbatim>\<open>Create\<close>, \<^verbatim>\<open>AddZero\<close>, \<^verbatim>\<open>AttachNode\<close>\<close>

text \<open>
  Modelled from the spec: \<^verbatim>\<open>Expr::IgnoreParens\<close> and
  \<^verbatim>\<open>Lexicographic::IgnoreValuePreservingOperations\<close> are host functions whose code
  is not part of the sources at hand. The first strips parentheses, the second strips
  parentheses and the implicit casts that the host calls value preserving.
\<close>

fun IgnoreParens :: "Expr \<Rightarrow> Expr" where
  "IgnoreParens (ParenExpr E) = IgnoreParens E"
| "IgnoreParens E = E"

fun IgnoreValuePreservingOperations :: "Lexicographic \<Rightarrow> Expr \<Rightarrow> Expr" where
  "IgnoreValuePreservingOperations Lex (ParenExpr E) = IgnoreValuePreservingOperations Lex E"
| "IgnoreValuePreservingOperations Lex (ImplicitCastExpr CK E) =
     (if IsValuePreserving Lex CK then IgnoreValuePreservingOperations Lex E
      else ImplicitCastExpr CK E)"
| "IgnoreValuePreservingOperations Lex E = E"

text \<open>
  Modelled from the spec: the host's constant evaluator (\<^verbatim>\<open>isIntegerConstantExpr\<close>,
  \<^verbatim>\<open>EvaluateKnownConstIntCheckOverflow\<close>) is not part of the sources at hand. The
  model evaluates literals, parentheses, unary plus and minus, and binary
  \<^verbatim>\<open>+\<close>, \<^verbatim>\<open>-\<close>, \<^verbatim>\<open>*\<close> over 32-bit signed integers, and records whether a step
  overflowed. \<^verbatim>\<open>sadd_ov\<close>, \<^verbatim>\<open>ssub_ov\<close> and \<^verbatim>\<open>smul_ov\<close> are the operations of
  \<^verbatim>\<open>llvm::APInt\<close>: the wrapped result and the overflow flag.
\<close>

definition sadd_ov :: "APInt \<Rightarrow> APInt \<Rightarrow> APInt \<times> bool" where
  "sadd_ov a b = (a + b, sint (a + b) \<noteq> sint a + sint b)"

definition ssub_ov :: "APInt \<Rightarrow> APInt \<Rightarrow> APInt \<times> bool" where
  "ssub_ov a b = (a - b, sint (a - b) \<noteq> sint a - sint b)"

definition smul_ov :: "APInt \<Rightarrow> APInt \<Rightarrow> APInt \<times> bool" where
  "smul_ov a b = (a * b, sint (a * b) \<noteq> sint a * sint b)"

fun EvaluateInt :: "Expr \<Rightarrow> (APInt \<times> bool) option" where
  "EvaluateInt (IntegerLiteral V) = Some (V, False)"
| "EvaluateInt (ParenExpr E) = EvaluateInt E"
| "EvaluateInt (UnaryOperator Op E) =
     (if Op = UO_Plus then EvaluateInt E
      else if Op = UO_Minus then
        (case EvaluateInt E of None \<Rightarrow> None
         | Some (V, O1) \<Rightarrow> (let (R, O2) = ssub_ov 0 V in Some (R, O1 \<or> O2)))
      else None)"
| "EvaluateInt (BinaryOperator Op L R) =
     (if Op = BO_Add \<or> Op = BO_Sub \<or> Op = BO_Mul then
        (case EvaluateInt L of None \<Rightarrow> None
         | Some (V1, O1) \<Rightarrow>
           (case EvaluateInt R of None \<Rightarrow> None
            | Some (V2, O2) \<Rightarrow>
              (let (V, O3) = (if Op = BO_Add then sadd_ov V1 V2
                              else if Op = BO_Sub then ssub_ov V1 V2 else smul_ov V1 V2)
               in Some (V, O1 \<or> O2 \<or> O3))))
      else None)"
| "EvaluateInt E = None"

definition isIntegerConstantExpr :: "Expr \<Rightarrow> APInt option" where
  "isIntegerConstantExpr E = map_option fst (EvaluateInt E)"

definition EvaluateOverflows :: "Expr \<Rightarrow> bool" where
  "EvaluateOverflows E = (case EvaluateInt E of None \<Rightarrow> False | Some (V, Ov) \<Rightarrow> Ov)"

text \<open>
  \<^verbatim>\<open>AttachNode\<close> (lines 136--171). The tree itself is built by the value that
  \<^verbatim>\<open>Create\<close> returns; what \<^verbatim>\<open>AttachNode\<close> adds is the state it reads and
  writes: whether \<^verbatim>\<open>Root\<close> is still null and the \<^verbatim>\<open>Error\<close> flag.
\<close>

record BuildState =
  RootIsNull :: bool
  BuildError :: bool

definition AttachNode :: "NodeKind \<Rightarrow> NodeKind option \<Rightarrow> BuildState \<Rightarrow> BuildState" where
  "AttachNode N Parent S =
     (if Parent = Some LeafExprNodeKind then S\<lparr>BuildError := True\<rparr>
      else if RootIsNull S then
        (if N \<noteq> BinaryOperatorNodeKind then S\<lparr>BuildError := True\<rparr>
         else if Parent \<noteq> None then S\<lparr>BuildError := True\<rparr>
         else S\<lparr>RootIsNull := False\<rparr>)
      else S)"

text \<open>
  \<^verbatim>\<open>Create\<close> and \<^verbatim>\<open>AddZero\<close> (lines 173--341). The parent is passed as the class
  of the parent node, \<^verbatim>\<open>None\<close> for a null parent. An expression is never null here.
  The recursion descends into subexpressions after stripping, so it ends by the weight of
  the expression.
\<close>

fun ExprWeight :: "Expr \<Rightarrow> nat" where
  "ExprWeight (BinaryOperator Op L R) = 2 + ExprWeight L + ExprWeight R"
| "ExprWeight (UnaryOperator Op E) = 1 + ExprWeight E"
| "ExprWeight (MemberExpr E F A) = 1 + ExprWeight E"
| "ExprWeight (ArraySubscriptExpr B I) = 3 + ExprWeight B + ExprWeight I"
| "ExprWeight (ImplicitCastExpr CK E) = 1 + ExprWeight E"
| "ExprWeight (ParenExpr E) = 1 + ExprWeight E"
| "ExprWeight E = 1"

lemma ExprWeight_IgnoreParens: "ExprWeight (IgnoreParens E) \<le> ExprWeight E"
  by (induction E rule: IgnoreParens.induct) auto

lemma ExprWeight_IVPO: "ExprWeight (IgnoreValuePreservingOperations Lex E) \<le> ExprWeight E"
  by (induction Lex E rule: IgnoreValuePreservingOperations.induct) auto

lemma ExprWeight_strip:
  "ExprWeight (IgnoreValuePreservingOperations Lex (IgnoreParens E)) \<le> ExprWeight E"
  using ExprWeight_IVPO [of Lex "IgnoreParens E"] ExprWeight_IgnoreParens [of E] by simp

lemma ExprWeight_strip_eq:
  "X = IgnoreValuePreservingOperations Lex (IgnoreParens E) \<Longrightarrow> ExprWeight X \<le> ExprWeight E"
  by (simp add: ExprWeight_strip)

lemma ExprWeight_strip_eq':
  "IgnoreValuePreservingOperations Lex (IgnoreParens E) = X \<Longrightarrow> ExprWeight X \<le> ExprWeight E"
  using ExprWeight_strip [of Lex E] by simp

function Create :: "Lexicographic \<Rightarrow> Expr \<Rightarrow> NodeKind option \<Rightarrow> BuildState \<Rightarrow> Node \<times> BuildState"
  and AddZero :: "Lexicographic \<Rightarrow> Expr \<Rightarrow> NodeKind option \<Rightarrow> BuildState \<Rightarrow> Node \<times> BuildState"
where
  "Create Lex E0 Parent S =
     (let E = IgnoreValuePreservingOperations Lex (IgnoreParens E0) in
      if Parent = None then AddZero Lex E Parent S
      else (case E of
        BinaryOperator BinOp LHS RHS \<Rightarrow>
          (let Rewrite = (BinOp = BO_Sub \<and> isIntegerConstantExpr RHS \<noteq> None
                            \<and> \<not> EvaluateOverflows (UnaryOperator UO_Minus RHS));
               BinOp1 = (if Rewrite then BO_Add else BinOp);
               RHS1 = (if Rewrite then UnaryOperator UO_Minus RHS else RHS);
               S1 = AttachNode BinaryOperatorNodeKind Parent S;
               (L, S2) = Create Lex LHS (Some BinaryOperatorNodeKind) S1;
               (R, S3) = Create Lex RHS1 (Some BinaryOperatorNodeKind) S2
           in (BinaryOperatorNode BinOp1 [L, R], S3))
      | MemberExpr MBase FieldD IsArrow \<Rightarrow>
          (let Base = IgnoreValuePreservingOperations Lex (IgnoreParens MBase);
               ArrowBase =
                 (if IsArrow then Some Base
                  else (case Base of
                     UnaryOperator UOp USub \<Rightarrow> if UOp = UO_Deref then Some USub else None
                   | ArraySubscriptExpr ABase AIdx \<Rightarrow> Some (BinaryOperator BO_Add ABase AIdx)
                   | _ \<Rightarrow> None));
               S1 = AttachNode MemberNodeKind Parent S
           in (case ArrowBase of
                 Some AB \<Rightarrow>
                   (let (B, S2) = AddZero Lex AB (Some MemberNodeKind) S1
                    in (MemberNode FieldD True B, S2))
               | None \<Rightarrow>
                   (let (B, S2) = Create Lex Base (Some MemberNodeKind) S1
                    in (MemberNode FieldD False B, S2))))
      | UnaryOperator Op Sub \<Rightarrow>
          (if Op = UO_Deref then
             (let S1 = AttachNode UnaryOperatorNodeKind Parent S;
                  (C, S2) = AddZero Lex Sub (Some UnaryOperatorNodeKind) S1
              in (UnaryOperatorNode Op C, S2))
           else if (Op = UO_Plus \<or> Op = UO_Minus) \<and> isIntegerConstantExpr E \<noteq> None then
             (LeafExprNode E, AttachNode LeafExprNodeKind Parent S)
           else
             (let S1 = AttachNode UnaryOperatorNodeKind Parent S;
                  (C, S2) = Create Lex Sub (Some UnaryOperatorNodeKind) S1
              in (UnaryOperatorNode Op C, S2)))
      | ArraySubscriptExpr ABase AIdx \<Rightarrow>
          (let S1 = AttachNode UnaryOperatorNodeKind Parent S;
               (C, S2) = AddZero Lex (BinaryOperator BO_Add ABase AIdx) (Some UnaryOperatorNodeKind) S1
           in (UnaryOperatorNode UO_Deref C, S2))
      | ImplicitCastExpr CK Sub \<Rightarrow>
          (let S1 = AttachNode ImplicitCastNodeKind Parent S;
               (C, S2) = Create Lex Sub (Some ImplicitCastNodeKind) S1
           in (ImplicitCastNode CK C, S2))
      | _ \<Rightarrow> (LeafExprNode E, AttachNode LeafExprNodeKind Parent S)))"
| "AddZero Lex E Parent S =
     (let S1 = AttachNode BinaryOperatorNodeKind Parent S;
          S2 = AttachNode LeafExprNodeKind (Some BinaryOperatorNodeKind) S1;
          (C, S3) = Create Lex E (Some BinaryOperatorNodeKind) S2
      in (BinaryOperatorNode BO_Add [LeafExprNode (IntegerLiteral 0), C], S3))"
  by pat_completeness auto

termination
proof (relation "measure (\<lambda>x. case x of
            Inl (Lex, E, Parent, S) \<Rightarrow> 3 * ExprWeight E + (if Parent = None then 2 else 0)
          | Inr (Lex, E, Parent, S) \<Rightarrow> 3 * ExprWeight E + 1)", goal_cases)
  case 1
  show ?case by simp
next
  case (2 Lex E0 Parent S x)
  then show ?case using ExprWeight_strip [of Lex E0] by simp
next
  case 3
  from ExprWeight_strip_eq' [OF trans [OF 3(1) [symmetric] 3(3)]] 3 show ?case by auto
next
  case 4
  from ExprWeight_strip_eq' [OF trans [OF 4(1) [symmetric] 4(3)]] 4 show ?case by (auto split: if_splits)
next
  case 5
  from ExprWeight_strip_eq' [OF trans [OF 5(1) [symmetric] 5(3)]] 5 show ?case by auto
next
  case 6
  from ExprWeight_strip_eq' [OF trans [OF 6(1) [symmetric] 6(3)]] 6 show ?case by auto
next
  case 7
  from ExprWeight_strip_eq' [OF trans [OF 7(1) [symmetric] 7(3)]] ExprWeight_strip_eq [OF 7(4)] 7 show ?case
    by (auto split: if_splits Expr.splits)
next
  case 8
  from ExprWeight_strip_eq' [OF trans [OF 8(1) [symmetric] 8(3)]] ExprWeight_strip_eq [OF 8(4)] 8 show ?case
    by (auto split: if_splits Expr.splits)
next
  case 9
  from ExprWeight_strip_eq' [OF trans [OF 9(1) [symmetric] 9(3)]] 9 show ?case by auto
next
  case 10
  from ExprWeight_strip_eq' [OF trans [OF 10(1) [symmetric] 10(3)]] 10 show ?case by auto
next
  case 11
  show ?case by simp
qed

text \<open>
  The node that \<^verbatim>\<open>Create\<close> builds below a parent that is not a leaf, once the root
  exists: there \<^verbatim>\<open>AttachNode\<close> changes no state.
\<close>

definition GoodParent :: "NodeKind option \<Rightarrow> BuildState \<Rightarrow> bool" where
  "GoodParent Parent S = (Parent \<noteq> None \<and> Parent \<noteq> Some LeafExprNodeKind \<and> \<not> RootIsNull S)"

definition BuildState_attached :: BuildState where
  "BuildState_attached = \<lparr>RootIsNull = False, BuildError = False\<rparr>"

definition CreateNode :: "Lexicographic \<Rightarrow> Expr \<Rightarrow> Node" where
  "CreateNode Lex E = fst (Create Lex E (Some BinaryOperatorNodeKind) BuildState_attached)"

section \<open>Normalisation: \<^verbatim>\<open>Coalesce\<close>, \<^verbatim>\<open>Sort\<close>, \<^verbatim>\<open>ConstantFold\<close>\<close>

text \<open>
  Modelled from the spec: \<^verbatim>\<open>BinaryOperatorNode::IsOpCommutativeAndAssociative\<close> is
  declared in \<^verbatim>\<open>PreorderAST.h\<close>, which is not part of the sources at hand. By the
  spec the commutative and associative operators are addition and multiplication.
\<close>

definition IsOpCommutativeAndAssociative :: "BinaryOperatorKind \<Rightarrow> bool" where
  "IsOpCommutativeAndAssociative Opc = (Opc = BO_Add \<or> Opc = BO_Mul)"

text \<open>
  \<^verbatim>\<open>Coalesce\<close> (lines 343--415). A node that coalesces erases itself from its parent's
  children and pushes its own children at their back; the result says whether the node
  stays (and what it has become) or which children it hands to its parent. The loop
  \<^verbatim>\<open>for (auto *Child : Children) Child->Coalesce(Changed, Error)\<close> runs over the
  vector that these children change: its end is fixed when the loop starts (\<^verbatim>\<open>End\<close>,
  the number of children then) and its position \<^verbatim>\<open>I\<close> moves on by one after every
  child. So after a child at \<^verbatim>\<open>I\<close> has erased itself, the child that took its place is
  passed over, and children pushed at the back are visited as far as they lie before
  \<^verbatim>\<open>End\<close>. Where the vector has become shorter than \<^verbatim>\<open>I\<close> the source would read
  past its end; the model ends the loop there. \<^verbatim>\<open>Coalesce\<close> never sets
  \<^verbatim>\<open>Error\<close>, so only \<^verbatim>\<open>Changed\<close> is returned. The recursion visits nodes that
  earlier calls have produced; it ends because no call makes the children larger, which
  is proved on the domain of the function before it is known to be total.
\<close>

datatype Placement = Stays Node | Merges "Node list"

definition CanCoalesce :: "BinaryOperatorKind \<Rightarrow> nat \<Rightarrow> BinaryOperatorKind option \<Rightarrow> bool" where
  "CanCoalesce Opc NumChildren Parent =
     (if \<not> IsOpCommutativeAndAssociative Opc then False
      else (case Parent of
              None \<Rightarrow> False
            | Some ParentOpc \<Rightarrow>
                if \<not> IsOpCommutativeAndAssociative ParentOpc then False
                else Opc = ParentOpc \<or> NumChildren = 1))"

function Coalesce :: "BinaryOperatorKind option \<Rightarrow> bool \<Rightarrow> Node \<Rightarrow> Placement \<times> bool"
  and CoalesceChildren ::
    "BinaryOperatorKind \<Rightarrow> nat \<Rightarrow> nat \<Rightarrow> Node list \<Rightarrow> bool \<Rightarrow> Node list \<times> bool"
where
  "Coalesce Parent Err (BinaryOperatorNode Opc Children) =
     (if Err then (Stays (BinaryOperatorNode Opc Children), False)
      else (case CoalesceChildren Opc (length Children) 0 Children False of
              (Children1, Changed) \<Rightarrow>
                if CanCoalesce Opc (length Children1) Parent
                then (Merges Children1, True)
                else (Stays (BinaryOperatorNode Opc Children1), Changed)))"
| "Coalesce Parent Err (UnaryOperatorNode Opc Child) =
     (if Err then (Stays (UnaryOperatorNode Opc Child), False)
      else (case Coalesce None Err Child of
              (Stays C, Changed) \<Rightarrow> (Stays (UnaryOperatorNode Opc C), Changed)
            | (Merges Cs, Changed) \<Rightarrow> (Stays (UnaryOperatorNode Opc Child), Changed)))"
| "Coalesce Parent Err (MemberNode FieldD IsArrow Base) =
     (if Err then (Stays (MemberNode FieldD IsArrow Base), False)
      else (case Coalesce None Err Base of
              (Stays B, Changed) \<Rightarrow> (Stays (MemberNode FieldD IsArrow B), Changed)
            | (Merges Bs, Changed) \<Rightarrow> (Stays (MemberNode FieldD IsArrow Base), Changed)))"
| "Coalesce Parent Err (ImplicitCastNode CK Child) =
     (if Err then (Stays (ImplicitCastNode CK Child), False)
      else (case Coalesce None Err Child of
              (Stays C, Changed) \<Rightarrow> (Stays (ImplicitCastNode CK C), Changed)
            | (Merges Cs, Changed) \<Rightarrow> (Stays (ImplicitCastNode CK Child), Changed)))"
| "Coalesce Parent Err (LeafExprNode E) = (Stays (LeafExprNode E), False)"
| "CoalesceChildren Opc End I Children Changed =
     (if End \<le> I \<or> length Children \<le> I then (Children, Changed)
      else (case Coalesce (Some Opc) False (Children ! I) of
              (Stays C, Changed1) \<Rightarrow>
                CoalesceChildren Opc End (Suc I) (Children[I := C]) (Changed \<or> Changed1)
            | (Merges Cs, Changed1) \<Rightarrow>
                CoalesceChildren Opc End (Suc I)
                  (take I Children @ drop (Suc I) Children @ Cs) True))"
  by pat_completeness auto

definition PlacementBound :: "Node \<Rightarrow> Placement \<Rightarrow> bool" where
  "PlacementBound N P =
     (case P of Stays N' \<Rightarrow> size N' \<le> size N | Merges Cs \<Rightarrow> size_list size Cs < size N)"

lemma size_list_append [simp]: "size_list f (xs @ ys) = size_list f xs + size_list f ys"
  by (induction xs) auto

lemma size_nth_less: "I < length xs \<Longrightarrow> size (xs ! I) < size_list size xs"
proof (induction xs arbitrary: I)
  case Nil
  then show ?case by simp
next
  case (Cons a xs)
  show ?case
  proof (cases I)
    case 0
    then show ?thesis by simp
  next
    case (Suc J)
    with Cons.prems have "J < length xs" by simp
    from Cons.IH [OF this] Suc show ?thesis by simp
  qed
qed

lemma size_list_update:
  "I < length xs \<Longrightarrow> size_list size (xs[I := y]) + size (xs ! I) = size_list size xs + size y"
proof (induction xs arbitrary: I)
  case Nil
  then show ?case by simp
next
  case (Cons a xs)
  show ?case
  proof (cases I)
    case 0
    then show ?thesis by simp
  next
    case (Suc J)
    with Cons.prems have "J < length xs" by simp
    from Cons.IH [OF this] Suc show ?thesis by simp
  qed
qed

lemma size_list_erase:
  "I < length xs \<Longrightarrow>
     size_list size (take I xs @ drop (Suc I) xs) + Suc (size (xs ! I)) = size_list size xs"
proof (induction xs arbitrary: I)
  case Nil
  then show ?case by simp
next
  case (Cons a xs)
  show ?case
  proof (cases I)
    case 0
    then show ?thesis by simp
  next
    case (Suc J)
    with Cons.prems have "J < length xs" by simp
    from Cons.IH [OF this] Suc show ?thesis by simp
  qed
qed

lemma Coalesce_dom_size:
  shows "Coalesce_CoalesceChildren_dom (Inl (Parent, Err, N)) \<Longrightarrow>
           PlacementBound N (fst (Coalesce Parent Err N))"
    and "Coalesce_CoalesceChildren_dom (Inr (Opc, End, I, Cs, Ch)) \<Longrightarrow>
           size_list size (fst (CoalesceChildren Opc End I Cs Ch)) \<le> size_list size Cs"
proof (induction Parent Err N and Opc End I Cs Ch rule: Coalesce_CoalesceChildren.pinduct)
  case (1 Parent Err Opc Children)
  then show ?case
    by (auto simp: Coalesce.psimps PlacementBound_def split: prod.splits)
next
  case (2 Parent Err Opc Child)
  then show ?case
    by (auto simp: Coalesce.psimps PlacementBound_def split: prod.splits Placement.splits)
next
  case (3 Parent Err FieldD IsArrow Base)
  then show ?case
    by (auto simp: Coalesce.psimps PlacementBound_def split: prod.splits Placement.splits)
next
  case (4 Parent Err CK Child)
  then show ?case
    by (auto simp: Coalesce.psimps PlacementBound_def split: prod.splits Placement.splits)
next
  case (5 Parent Err E)
  then show ?case by (simp add: Coalesce.psimps PlacementBound_def)
next
  case (6 Opc End I Children Changed)
  show ?case
  proof (cases "End \<le> I \<or> length Children \<le> I")
    case True
    then show ?thesis using "6.hyps" by (simp add: CoalesceChildren.psimps)
  next
    case False
    then have lt: "I < length Children" by simp
    obtain P Ch1 where c: "Coalesce (Some Opc) False (Children ! I) = (P, Ch1)"
      by (cases "Coalesce (Some Opc) False (Children ! I)")
    have b: "PlacementBound (Children ! I) P" using "6.IH"(1) [OF False] c by simp
    show ?thesis
    proof (cases P)
      case (Stays C)
      with b have sc: "size C \<le> size (Children ! I)" by (simp add: PlacementBound_def)
      have "size_list size (fst (CoalesceChildren Opc End (Suc I) (Children[I := C]) (Changed \<or> Ch1)))
              \<le> size_list size (Children[I := C])"
        using "6.IH"(2) [OF False c [symmetric] Stays] .
      also have "\<dots> \<le> size_list size Children"
        using size_list_update [OF lt, of C] sc by simp
      finally show ?thesis using "6.hyps" False c Stays by (simp add: CoalesceChildren.psimps)
    next
      case (Merges Gs)
      with b have sg: "size_list size Gs < size (Children ! I)" by (simp add: PlacementBound_def)
      have "size_list size (fst (CoalesceChildren Opc End (Suc I)
               (take I Children @ drop (Suc I) Children @ Gs) True))
              \<le> size_list size (take I Children @ drop (Suc I) Children @ Gs)"
        using "6.IH"(3) [OF False c [symmetric] Merges] .
      also have "\<dots> \<le> size_list size Children"
        using size_list_erase [OF lt] sg by simp
      finally show ?thesis using "6.hyps" False c Merges by (simp add: CoalesceChildren.psimps)
    qed
  qed
qed

termination Coalesce
proof (relation "inv_image (less_than <*lex*> less_than)
         (\<lambda>x. case x of
            Inl (Parent, Err, N) \<Rightarrow> (size N, 0::nat)
          | Inr (Opc, End, I, Cs, Ch) \<Rightarrow> (size_list size Cs, Suc (End - I)))", goal_cases)
  case 1
  show ?case by (intro wf_inv_image wf_lex_prod wf_less_than)
next
  case (2 Parent Err Opc Children)
  show ?case by simp
next
  case (3 Parent Err Opc Child)
  show ?case by simp
next
  case (4 Parent Err FieldD IsArrow Base)
  show ?case by simp
next
  case (5 Parent Err CK Child)
  show ?case by simp
next
  case (6 Opc End I Children Changed)
  then show ?case by (simp add: size_nth_less)
next
  case (7 Opc End I Children Changed P Changed1 C)
  then have lt: "I < length Children" and e: "I < End" by simp_all
  from 7(2,3) have c: "fst (Coalesce (Some Opc) False (Children ! I)) = Stays C"
    by (metis fst_conv)
  have "PlacementBound (Children ! I) (Stays C)"
    using Coalesce_dom_size(1) [OF 7(4)] c by simp
  then have "size C \<le> size (Children ! I)" by (simp add: PlacementBound_def)
  with size_list_update [OF lt, of C] have "size_list size (Children[I := C]) \<le> size_list size Children"
    by simp
  with e show ?case by auto
next
  case (8 Opc End I Children Changed P Changed1 Cs)
  then have lt: "I < length Children" by simp
  from 8(2,3) have c: "fst (Coalesce (Some Opc) False (Children ! I)) = Merges Cs"
    by (metis fst_conv)
  have "PlacementBound (Children ! I) (Merges Cs)"
    using Coalesce_dom_size(1) [OF 8(4)] c by simp
  then have "size_list size Cs < size (Children ! I)" by (simp add: PlacementBound_def)
  with size_list_erase [OF lt] show ?case by simp
qed

declare CoalesceChildren.simps [simp del]

text \<open>
  \<^verbatim>\<open>Sort\<close> (lines 417--443). \<^verbatim>\<open>llvm::sort\<close> with the comparator
  \<^verbatim>\<open>Compare = LessThan\<close> is an insertion sort here; under a total order the sorted
  list of a list does not depend on the algorithm.
\<close>

fun insert_sorted :: "Lexicographic \<Rightarrow> Node \<Rightarrow> Node list \<Rightarrow> Node list" where
  "insert_sorted Lex N [] = [N]"
| "insert_sorted Lex N (M # Ms) =
     (if Compare Lex N M = LessThan then N # M # Ms else M # insert_sorted Lex N Ms)"

definition llvm_sort :: "Lexicographic \<Rightarrow> Node list \<Rightarrow> Node list" where
  "llvm_sort Lex Ns = foldr (insert_sorted Lex) Ns []"

fun Sort :: "Lexicographic \<Rightarrow> Node \<Rightarrow> Node" where
  "Sort Lex (BinaryOperatorNode Opc Children) =
     (if \<not> IsOpCommutativeAndAssociative Opc
      then BinaryOperatorNode Opc (map (Sort Lex) Children)
      else BinaryOperatorNode Opc (llvm_sort Lex (map (Sort Lex) Children)))"
| "Sort Lex (UnaryOperatorNode Opc Child) = UnaryOperatorNode Opc (Sort Lex Child)"
| "Sort Lex (MemberNode FieldD IsArrow Base) = MemberNode FieldD IsArrow (Sort Lex Base)"
| "Sort Lex (ImplicitCastNode CK Child) = ImplicitCastNode CK (Sort Lex Child)"
| "Sort Lex (LeafExprNode E) = LeafExprNode E"

text \<open>
  \<^verbatim>\<open>ConstantFold\<close> (lines 445--554). The loop runs over the children by index and
  reads \<^verbatim>\<open>Children.size()\<close> at each step. \<^verbatim>\<open>Done\<close> holds the children before the
  index, \<^verbatim>\<open>Tail\<close> those that an early return left unvisited; the children still to
  visit are the arguments \<^verbatim>\<open>Rest\<close> (children of the node at entry) and \<^verbatim>\<open>Moved\<close>
  (children pushed at the back by a child that coalesced into the node while it was
  folded). After such a child has erased itself the index moves on, so the element that
  took its place is passed over. At the end the \<^verbatim>\<open>NumConsts\<close> children from
  \<^verbatim>\<open>ConstStartIdx\<close> on are erased and the folded literal is pushed at the back.
\<close>

record FoldState =
  Done :: "Node list"
  Tail :: "Node list"
  ConstStartIdx :: nat
  NumConsts :: nat
  ConstFoldedVal :: APInt
  FoldChanged :: bool
  FoldError :: bool
  Returned :: bool

definition FoldState_init :: FoldState where
  "FoldState_init = \<lparr>Done = [], Tail = [], ConstStartIdx = 0, NumConsts = 0, ConstFoldedVal = 0,
                      FoldChanged = False, FoldError = False, Returned = False\<rparr>"

definition FoldLeaf :: "BinaryOperatorKind \<Rightarrow> Node \<Rightarrow> FoldState \<Rightarrow> FoldState" where
  "FoldLeaf Opc Child St =
     (let St1 = St\<lparr>Done := Done St @ [Child]\<rparr> in
      if \<not> IsOpCommutativeAndAssociative Opc then St1
      else (case Child of
        LeafExprNode E \<Rightarrow>
          (case isIntegerConstantExpr E of
             None \<Rightarrow> St1
           | Some CurrConstVal \<Rightarrow>
               if NumConsts St = 0
               then St1\<lparr>NumConsts := 1, ConstStartIdx := length (Done St),
                        ConstFoldedVal := CurrConstVal\<rparr>
               else if Opc = BO_Add
               then (case sadd_ov (ConstFoldedVal St) CurrConstVal of (V, Overflow) \<Rightarrow>
                       if Overflow
                       then St1\<lparr>NumConsts := NumConsts St + 1, ConstFoldedVal := V,
                                FoldError := True, Returned := True\<rparr>
                       else St1\<lparr>NumConsts := NumConsts St + 1, ConstFoldedVal := V\<rparr>)
               else if Opc = BO_Mul
               then (case smul_ov (ConstFoldedVal St) CurrConstVal of (V, Overflow) \<Rightarrow>
                       if Overflow
                       then St1\<lparr>NumConsts := NumConsts St + 1, ConstFoldedVal := V,
                                FoldError := True, Returned := True\<rparr>
                       else St1\<lparr>NumConsts := NumConsts St + 1, ConstFoldedVal := V\<rparr>)
               else St1\<lparr>NumConsts := NumConsts St + 1\<rparr>)
      | _ \<Rightarrow> St1))"

fun FoldMoved :: "BinaryOperatorKind \<Rightarrow> Node list \<Rightarrow> FoldState \<Rightarrow> FoldState" where
  "FoldMoved Opc [] St = St"
| "FoldMoved Opc (M # Ms) St =
     (let St1 = FoldLeaf Opc M St in
      if Returned St1 then St1\<lparr>Tail := Ms\<rparr> else FoldMoved Opc Ms St1)"

fun isLeafExprNode :: "Node \<Rightarrow> bool" where
  "isLeafExprNode (LeafExprNode E) = True"
| "isLeafExprNode N = False"

function ConstantFold :: "BinaryOperatorKind option \<Rightarrow> bool \<Rightarrow> Node \<Rightarrow> Placement \<times> bool \<times> bool"
  and ConstantFoldChildren ::
    "BinaryOperatorKind \<Rightarrow> Node list \<Rightarrow> Node list \<Rightarrow> FoldState \<Rightarrow> FoldState"
where
  "ConstantFold Parent Err (BinaryOperatorNode Opc Children) =
     (if Err then (Stays (BinaryOperatorNode Opc Children), False, Err)
      else (let St = ConstantFoldChildren Opc Children [] FoldState_init;
                Children1 = Done St @ Tail St
            in if Returned St then (Stays (BinaryOperatorNode Opc Children1), FoldChanged St, FoldError St)
               else if NumConsts St \<le> 1
               then (Stays (BinaryOperatorNode Opc Children1), FoldChanged St, FoldError St)
               else (let Children2 = take (ConstStartIdx St) Children1
                                       @ drop (ConstStartIdx St + NumConsts St) Children1
                                       @ [LeafExprNode (IntegerLiteral (ConstFoldedVal St))]
                     in if length Children2 = 1 \<and> CanCoalesce Opc (length Children2) Parent
                        then (fst (Coalesce Parent (FoldError St) (BinaryOperatorNode Opc Children2)),
                              True, FoldError St)
                        else (Stays (BinaryOperatorNode Opc Children2), True, FoldError St))))"
| "ConstantFold Parent Err (UnaryOperatorNode Opc Child) =
     (if Err then (Stays (UnaryOperatorNode Opc Child), False, Err)
      else (case ConstantFold None Err Child of
              (Stays C, Ch, Er) \<Rightarrow> (Stays (UnaryOperatorNode Opc C), Ch, Er)
            | (Merges Cs, Ch, Er) \<Rightarrow> (Stays (UnaryOperatorNode Opc Child), Ch, Er)))"
| "ConstantFold Parent Err (MemberNode FieldD IsArrow Base) =
     (if Err then (Stays (MemberNode FieldD IsArrow Base), False, Err)
      else (case ConstantFold None Err Base of
              (Stays B, Ch, Er) \<Rightarrow> (Stays (MemberNode FieldD IsArrow B), Ch, Er)
            | (Merges Bs, Ch, Er) \<Rightarrow> (Stays (MemberNode FieldD IsArrow Base), Ch, Er)))"
| "ConstantFold Parent Err (ImplicitCastNode CK Child) =
     (if Err then (Stays (ImplicitCastNode CK Child), False, Err)
      else (case ConstantFold None Err Child of
              (Stays C, Ch, Er) \<Rightarrow> (Stays (ImplicitCastNode CK C), Ch, Er)
            | (Merges Cs, Ch, Er) \<Rightarrow> (Stays (ImplicitCastNode CK Child), Ch, Er)))"
| "ConstantFold Parent Err (LeafExprNode E) = (Stays (LeafExprNode E), False, Err)"
| "ConstantFoldChildren Opc [] Moved St = FoldMoved Opc Moved St"
| "ConstantFoldChildren Opc (Child # Rest) Moved St =
     (if isLeafExprNode Child
      then (let St1 = FoldLeaf Opc Child St in
            if Returned St1 then St1\<lparr>Tail := Rest @ Moved\<rparr>
            else ConstantFoldChildren Opc Rest Moved St1)
      else (case ConstantFold (Some Opc) (FoldError St) Child of
              (Stays C, Ch, Er) \<Rightarrow>
                ConstantFoldChildren Opc Rest Moved
                  (St\<lparr>Done := Done St @ [C], FoldChanged := (FoldChanged St \<or> Ch), FoldError := Er\<rparr>)
            | (Merges Cs, Ch, Er) \<Rightarrow>
                (case Rest of
                   Next # Rest1 \<Rightarrow>
                     ConstantFoldChildren Opc Rest1 (Moved @ Cs)
                       (St\<lparr>Done := Done St @ [Next], FoldChanged := True, FoldError := Er\<rparr>)
                 | [] \<Rightarrow>
                     (case Moved @ Cs of
                        M # Ms \<Rightarrow>
                          FoldMoved Opc Ms (St\<lparr>Done := Done St @ [M], FoldChanged := True, FoldError := Er\<rparr>)
                      | [] \<Rightarrow> St\<lparr>FoldChanged := True, FoldError := Er\<rparr>))))"
  by pat_completeness auto

termination
  apply (relation "measure (\<lambda>x. case x of
            Inl (Parent, Err, N) \<Rightarrow> size N
          | Inr (Opc, Children, Moved, St) \<Rightarrow> size_list size Children)")
  apply auto
  done

text \<open>
  \<^verbatim>\<open>Normalize\<close> (lines 730--750): coalesce, sort and fold until nothing changes or an
  error is set. Every round that changes the tree makes it smaller, which is the
  termination proof further down. The constructor of \<^verbatim>\<open>PreorderAST\<close> calls
  \<^verbatim>\<open>Create\<close> on the empty tree and then \<^verbatim>\<open>Normalize\<close>.
\<close>

fun PlacedNode :: "Placement \<Rightarrow> Node \<Rightarrow> Node" where
  "PlacedNode (Stays N) Old = N"
| "PlacedNode (Merges Cs) Old = Old"

function NormalizeLoop :: "Lexicographic \<Rightarrow> Node \<Rightarrow> bool \<Rightarrow> Node \<times> bool" where
  "NormalizeLoop Lex Root0 Err =
     (case Coalesce None Err Root0 of (P1, Changed1) \<Rightarrow>
        if Err then (PlacedNode P1 Root0, Err)
        else (case ConstantFold None Err (Sort Lex (PlacedNode P1 Root0)) of (P3, Changed3, Err3) \<Rightarrow>
                if Err3 then (PlacedNode P3 (Sort Lex (PlacedNode P1 Root0)), Err3)
                else if Changed1 \<or> Changed3
                then NormalizeLoop Lex (PlacedNode P3 (Sort Lex (PlacedNode P1 Root0))) Err3
                else (PlacedNode P3 (Sort Lex (PlacedNode P1 Root0)), Err3)))"
  by pat_completeness auto

record PreorderAST =
  Root :: Node
  Error :: bool

definition PreorderAST_new :: "Lexicographic \<Rightarrow> Expr \<Rightarrow> PreorderAST" where
  "PreorderAST_new Lex E =
     (case Create Lex E None \<lparr>RootIsNull = True, BuildError = False\<rparr> of
        (N, S) \<Rightarrow> \<lparr>Root = N, Error = BuildError S\<rparr>)"

definition Normalize :: "Lexicographic \<Rightarrow> PreorderAST \<Rightarrow> PreorderAST" where
  "Normalize Lex A =
     (case NormalizeLoop Lex (Root A) (Error A) of (R, E) \<Rightarrow> \<lparr>Root = R, Error = E\<rparr>)"

text \<open>\<^verbatim>\<open>GetDerefOffset\<close> (lines 556--630); \<^verbatim>\<open>Offset\<close> is read and written.\<close>

fun GetDerefOffsetChildren ::
  "Lexicographic \<Rightarrow> BinaryOperatorKind \<Rightarrow> Node list \<Rightarrow> Node list \<Rightarrow> APInt \<Rightarrow> APInt option" where
  "GetDerefOffsetChildren Lex Opc [] Children2 Offset = Some Offset"
| "GetDerefOffsetChildren Lex Opc (Child1 # Children1) [] Offset = Some Offset"
| "GetDerefOffsetChildren Lex Opc (Child1 # Children1) (Child2 # Children2) Offset =
     (if Compare Lex Child1 Child2 = Equal
      then GetDerefOffsetChildren Lex Opc Children1 Children2 Offset
      else (case (Child1, Child2) of
        (LeafExprNode E1, LeafExprNode E2) \<Rightarrow>
          (case isIntegerConstantExpr E1 of
             None \<Rightarrow> None
           | Some UpperOffset \<Rightarrow>
             (case isIntegerConstantExpr E2 of
                None \<Rightarrow> None
              | Some DerefOffset \<Rightarrow>
                  if Opc \<noteq> BO_Add then None
                  else if Offset \<noteq> 0 then None
                  else (case ssub_ov DerefOffset UpperOffset of (V, Overflow) \<Rightarrow>
                          if Overflow then None
                          else GetDerefOffsetChildren Lex Opc Children1 Children2 V)))
      | _ \<Rightarrow> None))"

definition GetDerefOffset :: "Lexicographic \<Rightarrow> Node \<Rightarrow> Node \<Rightarrow> APInt \<Rightarrow> APInt option" where
  "GetDerefOffset Lex UpperNode DerefNode Offset =
     (case (UpperNode, DerefNode) of
        (BinaryOperatorNode Opc1 Children1, BinaryOperatorNode Opc2 Children2) \<Rightarrow>
          if Opc1 \<noteq> Opc2 then None
          else if length Children1 \<noteq> length Children2 then None
          else GetDerefOffsetChildren Lex Opc1 Children1 Children2 Offset
      | _ \<Rightarrow> None)"

section \<open>What is asked of the host's comparator\<close>

text \<open>
  The order properties of \<^verbatim>\<open>Compare\<close> rest on those of the host's comparator:
  swapping the arguments swaps the result, comparing equal is a congruence, less-than is
  transitive, and (for the uniqueness of sorted lists) only identical things compare
  equal.
\<close>

fun Result_swap :: "Result \<Rightarrow> Result" where
  "Result_swap LessThan = GreaterThan"
| "Result_swap Equal = Equal"
| "Result_swap GreaterThan = LessThan"

definition LexAntisym :: "Lexicographic \<Rightarrow> bool" where
  "LexAntisym Lex = ((\<forall>a b. CompareExpr Lex b a = Result_swap (CompareExpr Lex a b))
                     \<and> (\<forall>a b. CompareDecl Lex b a = Result_swap (CompareDecl Lex a b)))"

definition LexEqCongr :: "Lexicographic \<Rightarrow> bool" where
  "LexEqCongr Lex =
     ((\<forall>a b c. CompareExpr Lex a b = Equal \<longrightarrow> CompareExpr Lex a c = CompareExpr Lex b c)
      \<and> (\<forall>a b c. CompareDecl Lex a b = Equal \<longrightarrow> CompareDecl Lex a c = CompareDecl Lex b c))"

definition LexTrans :: "Lexicographic \<Rightarrow> bool" where
  "LexTrans Lex =
     ((\<forall>a b c. CompareExpr Lex a b = LessThan \<and> CompareExpr Lex b c = LessThan
          \<longrightarrow> CompareExpr Lex a c = LessThan)
      \<and> (\<forall>a b c. CompareDecl Lex a b = LessThan \<and> CompareDecl Lex b c = LessThan
          \<longrightarrow> CompareDecl Lex a c = LessThan))"

definition LexOrder :: "Lexicographic \<Rightarrow> bool" where
  "LexOrder Lex = (LexAntisym Lex \<and> LexEqCongr Lex \<and> LexTrans Lex)"

definition LexEqIdent :: "Lexicographic \<Rightarrow> bool" where
  "LexEqIdent Lex =
     ((\<forall>a b. CompareExpr Lex a b = Equal \<longrightarrow> a = b)
      \<and> (\<forall>a b. CompareDecl Lex a b = Equal \<longrightarrow> a = b))"

definition LexLinearOrder2 :: "Lexicographic \<Rightarrow> bool" where
  "LexLinearOrder2 Lex = (LexAntisym Lex \<and> LexTrans Lex \<and> LexEqIdent Lex)"

definition NodeLe :: "Lexicographic \<Rightarrow> Node \<Rightarrow> Node \<Rightarrow> bool" where
  "NodeLe Lex A B = (Compare Lex A B \<noteq> GreaterThan)"

text \<open>
  A comparator to run examples with: expressions are compared by a key that lists their
  preorder traversal, declarations by their number, and the cast kind 0 is the value
  preserving one.
\<close>

fun ExprKey :: "Expr \<Rightarrow> int list" where
  "ExprKey (DeclRefExpr D) = [0, int D]"
| "ExprKey (IntegerLiteral V) = [1, sint V]"
| "ExprKey (BinaryOperator Op L R) = 2 # int (BinaryOperatorKind_code Op) # ExprKey L @ ExprKey R"
| "ExprKey (UnaryOperator Op E) = 3 # int (UnaryOperatorKind_code Op) # ExprKey E"
| "ExprKey (MemberExpr E F A) = 4 # int F # (if A then 1 else 0) # ExprKey E"
| "ExprKey (ArraySubscriptExpr B I) = 5 # ExprKey B @ ExprKey I"
| "ExprKey (ImplicitCastExpr CK E) = 6 # int CK # ExprKey E"
| "ExprKey (ParenExpr E) = 7 # ExprKey E"
| "ExprKey (OpaqueExpr n) = [8, int n]"

definition CompareKeys :: "int list \<Rightarrow> int list \<Rightarrow> Result" where
  "CompareKeys a b = (if a < b then LessThan else if b < a then GreaterThan else Equal)"

definition StdLex :: Lexicographic where
  "StdLex = \<lparr>CompareExpr = (\<lambda>a b. CompareKeys (ExprKey a) (ExprKey b)),
             CompareDecl = CompareInteger,
             IsValuePreserving = (\<lambda>CK. CK = 0)\<rparr>"

text \<open>Predicates used in the proof that a round of normalisation shrinks the tree.\<close>

definition PlacementShrinks :: "Node \<Rightarrow> Placement \<times> bool \<Rightarrow> bool" where
  "PlacementShrinks N R =
     (case fst R of
        Stays N' \<Rightarrow> size N' \<le> size N \<and> (snd R \<longrightarrow> size N' < size N)
      | Merges Cs \<Rightarrow> size_list size Cs < size N)"

definition FoldInv :: "FoldState \<Rightarrow> bool" where
  "FoldInv St = (NumConsts St = 0 \<or> ConstStartIdx St + NumConsts St \<le> length (Done St))"

definition FoldBound :: "FoldState \<Rightarrow> Node list \<Rightarrow> Node list \<Rightarrow> FoldState \<Rightarrow> bool" where
  "FoldBound St Rest Moved St' =
     (size_list size (Done St') + size_list size (Tail St')
        + (if FoldChanged St' \<and> \<not> FoldChanged St then 1 else 0)
        \<le> size_list size (Done St) + size_list size Rest + size_list size Moved
      \<and> (FoldChanged St \<longrightarrow> FoldChanged St')
      \<and> (FoldInv St \<longrightarrow> FoldInv St'))"

text \<open>
  For constant folding: the overflow flag of \<^verbatim>\<open>sadd_ov\<close>; the permutations of three
  constants; and what the folding of \<^verbatim>\<open>x + c1 + c2\<close> asks of the host's ordering of
  expressions, that the variable is ordered before every integer literal or after every
  integer literal (\<^verbatim>\<open>ConstantFold\<close> erases \<^verbatim>\<open>NumConsts\<close> neighbouring
  children, so after sorting the constants have to be neighbours).
\<close>

definition VarApartFromLiterals :: "Lexicographic \<Rightarrow> Expr \<Rightarrow> bool" where
  "VarApartFromLiterals Lex X =
     ((\<forall>V. CompareExpr Lex X (IntegerLiteral V) = LessThan
            \<and> CompareExpr Lex (IntegerLiteral V) X \<noteq> LessThan)
      \<or> (\<forall>V. CompareExpr Lex (IntegerLiteral V) X = LessThan
            \<and> CompareExpr Lex X (IntegerLiteral V) \<noteq> LessThan))"

definition AddOverflows :: "APInt \<Rightarrow> APInt \<Rightarrow> bool" where
  "AddOverflows a b = snd (sadd_ov a b)"

definition IsPerm3 :: "APInt \<Rightarrow> APInt \<Rightarrow> APInt \<Rightarrow> APInt \<Rightarrow> APInt \<Rightarrow> APInt \<Rightarrow> bool" where
  "IsPerm3 u v w a b c =
     ((a, b, c) = (u, v, w) \<or> (a, b, c) = (u, w, v) \<or> (a, b, c) = (v, u, w)
      \<or> (a, b, c) = (v, w, u) \<or> (a, b, c) = (w, u, v) \<or> (a, b, c) = (w, v, u))"

text \<open>
  For \<^verbatim>\<open>GetDerefOffset\<close>: the value of a child that is a leaf holding an integer
  constant expression, the pairs of children that the loop accepts, and the pairs that
  compare equal.
\<close>

fun IntegerConstantLeaf :: "Node \<Rightarrow> APInt option" where
  "IntegerConstantLeaf (LeafExprNode E) = isIntegerConstantExpr E"
| "IntegerConstantLeaf N = None"

definition OffsetPair :: "Lexicographic \<Rightarrow> BinaryOperatorKind \<Rightarrow> Node \<Rightarrow> Node \<Rightarrow> bool" where
  "OffsetPair Lex Opc Child1 Child2 =
     (Compare Lex Child1 Child2 = Equal
      \<or> (Opc = BO_Add \<and> IntegerConstantLeaf Child1 \<noteq> None \<and> IntegerConstantLeaf Child2 \<noteq> None))"

definition EqualPair :: "Lexicographic \<Rightarrow> Node \<Rightarrow> Node \<Rightarrow> bool" where
  "EqualPair Lex Child1 Child2 = (Compare Lex Child1 Child2 = Equal)"

section \<open>Widening at a dereference\<close>

text \<open>
  Modelled from the spec: the bodies of \<^verbatim>\<open>BoundsWideningAnalysis\<close>
  (\<^verbatim>\<open>BoundsWideningAnalysis.cpp\<close>) are not part of the sources at hand; only the
  header and the test \<^verbatim>\<open>widened-bounds-semantic-compare.c\<close> are. By the header,
  \<^verbatim>\<open>GetWidenedExpr(E, Offset)\<close> returns the expression \<^verbatim>\<open>E + Offset\<close>, and the
  bounds of a pointer dereferenced by \<^verbatim>\<open>*E\<close> may be widened to \<^verbatim>\<open>E + 1\<close>. By the
  spec, a condition that dereferences a pointer generates a widened bound when the
  dereference is at the current upper bound, validated via \<^verbatim>\<open>GetDerefOffset\<close>, and
  the dump lists for each widened variable the offset of its widened upper bound.
  \<^verbatim>\<open>DerefOffsetBetween\<close> builds and normalises the two trees and asks
  \<^verbatim>\<open>GetDerefOffset\<close> for the offset, unless one of them failed;
  \<^verbatim>\<open>WidenedUpperBoundOffset\<close> is the offset of the widened upper bound from the
  declared one when the dereference is at the declared upper bound.
\<close>

definition GetWidenedExpr :: "Expr \<Rightarrow> APInt \<Rightarrow> Expr" where
  "GetWidenedExpr E Offset = BinaryOperator BO_Add E (IntegerLiteral Offset)"

definition DerefOffsetBetween :: "Lexicographic \<Rightarrow> Expr \<Rightarrow> Expr \<Rightarrow> APInt option" where
  "DerefOffsetBetween Lex UpperExpr DerefExpr =
     (let P1 = Normalize Lex (PreorderAST_new Lex UpperExpr);
          P2 = Normalize Lex (PreorderAST_new Lex DerefExpr)
      in if Error P1 \<or> Error P2 then None
         else GetDerefOffset Lex (Root P1) (Root P2) 0)"

definition WidenedUpperBoundOffset :: "Lexicographic \<Rightarrow> Expr \<Rightarrow> Expr \<Rightarrow> APInt option" where
  "WidenedUpperBoundOffset Lex DeclaredUpper DerefExpr =
     (if DerefOffsetBetween Lex DeclaredUpper DerefExpr = Some 0
      then DerefOffsetBetween Lex DeclaredUpper (GetWidenedExpr DerefExpr 1)
      else None)"

section \<open>Facts about QueueSet\<close>

lemma qs_consistent_init: "qs_consistent QueueSet_init"
  by (simp add: qs_consistent_def QueueSet_init_def)

lemma qs_consistent_append:
  "qs_consistent Q \<Longrightarrow> qs_consistent (qs_append B Q)"
  by (auto simp: qs_consistent_def qs_append_def)

lemma qs_consistent_remove_front:
  assumes "qs_consistent Q" and "qs_queue Q = [] \<or> qs_next Q = Some B"
  shows "qs_consistent (qs_remove B Q)"
proof (cases "qs_queue Q")
  case Nil
  then show ?thesis using assms by (simp add: qs_remove_def)
next
  case (Cons x xs)
  with assms(2) have "x = B" by (simp add: qs_next_def)
  with Cons assms(1) show ?thesis
    by (auto simp: qs_consistent_def qs_remove_def)
qed

lemma qs_run_consistent:
  "qs_consistent Q \<Longrightarrow> removes_front ops Q \<Longrightarrow> qs_consistent (qs_run ops Q)"
proof (induction ops Q rule: removes_front.induct)
  case (1 Q)
  then show ?case by simp
next
  case (2 B xs Q)
  then show ?case by (simp add: qs_consistent_append)
next
  case (3 B xs Q)
  then show ?case by (simp add: qs_consistent_remove_front)
qed

text \<open>
  C8 (as stated). The claim quantifies over every sequence of \<^verbatim>\<open>append\<close> and
  \<^verbatim>\<open>remove\<close> calls. After \<^verbatim>\<open>append(1); append(2); remove(2)\<close> the queue
  holds 2 and the set holds 1, so \<^verbatim>\<open>append(2)\<close> pushes 2 a second time: the
  element already in the queue is duplicated and the queue changes.
\<close>

theorem C8_duplicate_after_remove_of_non_front:
  "qs_queue (qs_run [Append 1, Append 2, Remove 2] QueueSet_init) = [2::nat]
   \<and> qs_queue (qs_run [Append 1, Append 2, Remove 2, Append 2] QueueSet_init) = [2::nat, 2]
   \<and> \<not> distinct (qs_queue (qs_run [Append 1, Append 2, Remove 2, Append (2::nat)] QueueSet_init))"
  by (simp add: QueueSet_init_def qs_append_def qs_remove_def)

text \<open>
  C8 (amended). For every sequence of \<^verbatim>\<open>append\<close> and \<^verbatim>\<open>remove\<close> calls in which
  each \<^verbatim>\<open>remove\<close> on a non-empty queue names the front element, started on the
  empty QueueSet, no element occurs twice in the queue, the queue and the set hold the
  same elements, and \<^verbatim>\<open>append\<close> of an element that is in the queue changes nothing.
\<close>

theorem C8_queue_distinct_under_front_removal:
  assumes "removes_front ops QueueSet_init"
  shows "distinct (qs_queue (qs_run ops QueueSet_init))
         \<and> set (qs_queue (qs_run ops QueueSet_init)) = qs_set (qs_run ops QueueSet_init)
         \<and> (\<forall>B. B \<in> set (qs_queue (qs_run ops QueueSet_init)) \<longrightarrow>
                qs_append B (qs_run ops QueueSet_init) = qs_run ops QueueSet_init)"
proof -
  have c: "qs_consistent (qs_run ops QueueSet_init)"
    using qs_consistent_init assms by (rule qs_run_consistent)
  then show ?thesis
    by (auto simp: qs_consistent_def qs_append_def)
qed

theorem C8_queue_distinct_witness:
  "removes_front [Append 1, Append 2, Remove 1, Append (1::nat)] QueueSet_init
   \<and> qs_queue (qs_run [Append 1, Append 2, Remove 1, Append (1::nat)] QueueSet_init) = [2, 1]
   \<and> distinct (qs_queue (qs_run [Append 1, Append 2, Remove 1, Append (1::nat)] QueueSet_init))
   \<and> qs_append 2 (qs_run [Append 1, Append 2, Remove 1, Append (1::nat)] QueueSet_init)
       = qs_run [Append 1, Append 2, Remove 1, Append (1::nat)] QueueSet_init"
proof -
  have h: "removes_front [Append 1, Append 2, Remove 1, Append (1::nat)] QueueSet_init"
    by (simp add: QueueSet_init_def qs_append_def qs_remove_def qs_next_def)
  have q: "qs_queue (qs_run [Append 1, Append 2, Remove 1, Append (1::nat)] QueueSet_init) = [2, 1]"
    by (simp add: QueueSet_init_def qs_append_def qs_remove_def)
  from C8_queue_distinct_under_front_removal [OF h] q h show ?thesis
    by simp
qed

text \<open>
  C10. \<^verbatim>\<open>remove(B)\<close> on a non-empty queue pops the front, whatever \<^verbatim>\<open>B\<close> is, and
  erases \<^verbatim>\<open>B\<close> from the set; on an empty queue it changes nothing. On a QueueSet
  whose queue and set agree, they still agree after \<^verbatim>\<open>remove(B)\<close> exactly when
  \<^verbatim>\<open>B\<close> is the front element.
\<close>

theorem C10_remove_pops_front:
  "(qs_queue Q \<noteq> [] \<longrightarrow>
      qs_queue (qs_remove B Q) = tl (qs_queue Q) \<and> qs_set (qs_remove B Q) = qs_set Q - {B})
   \<and> (qs_queue Q = [] \<longrightarrow> qs_remove B Q = Q)
   \<and> (qs_consistent Q \<and> qs_queue Q \<noteq> [] \<longrightarrow>
        (set (qs_queue (qs_remove B Q)) = qs_set (qs_remove B Q)) = (qs_next Q = Some B))"
proof -
  have a: "qs_queue Q \<noteq> [] \<longrightarrow>
      qs_queue (qs_remove B Q) = tl (qs_queue Q) \<and> qs_set (qs_remove B Q) = qs_set Q - {B}"
    by (simp add: qs_remove_def)
  have b: "qs_queue Q = [] \<longrightarrow> qs_remove B Q = Q"
    by (simp add: qs_remove_def)
  have c: "(set (qs_queue (qs_remove B Q)) = qs_set (qs_remove B Q)) = (qs_next Q = Some B)"
    if cq: "qs_consistent Q" and ne: "qs_queue Q \<noteq> []"
  proof -
    from ne obtain x xs where q: "qs_queue Q = x # xs" by (cases "qs_queue Q") auto
    from cq q have d: "x \<notin> set xs" and s: "qs_set Q = insert x (set xs)"
      by (auto simp: qs_consistent_def)
    have "(set xs = insert x (set xs) - {B}) = (x = B)"
      using d by auto
    then show ?thesis
      using q s by (simp add: qs_remove_def qs_next_def)
  qed
  from a b c show ?thesis by blast
qed

theorem C10_remove_pops_front_witness:
  "qs_consistent \<lparr>qs_queue = [1::nat, 2], qs_set = {1, 2}\<rparr>
   \<and> qs_remove 2 \<lparr>qs_queue = [1::nat, 2], qs_set = {1, 2}\<rparr> = \<lparr>qs_queue = [2], qs_set = {1}\<rparr>
   \<and> set (qs_queue (qs_remove 2 \<lparr>qs_queue = [1::nat, 2], qs_set = {1, 2}\<rparr>))
       \<noteq> qs_set (qs_remove 2 \<lparr>qs_queue = [1::nat, 2], qs_set = {1, 2}\<rparr>)
   \<and> qs_remove 2 \<lparr>qs_queue = [], qs_set = {}\<rparr> = \<lparr>qs_queue = [], qs_set = {}::nat set\<rparr>"
proof -
  let ?Q = "\<lparr>qs_queue = [1::nat, 2], qs_set = {1, 2}\<rparr>"
  have h: "qs_consistent ?Q" by (auto simp: qs_consistent_def)
  have r: "qs_remove 2 ?Q = \<lparr>qs_queue = [2], qs_set = {1}\<rparr>"
    by (auto simp: qs_remove_def)
  have n: "qs_next ?Q \<noteq> Some 2" by (simp add: qs_next_def)
  have e: "qs_remove 2 \<lparr>qs_queue = [], qs_set = {}\<rparr> = \<lparr>qs_queue = [], qs_set = {}::nat set\<rparr>"
    using C10_remove_pops_front [of "\<lparr>qs_queue = [], qs_set = {}::nat set\<rparr>" 2] by simp
  have ne: "qs_queue ?Q \<noteq> []" by simp
  from C10_remove_pops_front [of ?Q 2] h n ne
  have d: "set (qs_queue (qs_remove 2 ?Q)) \<noteq> qs_set (qs_remove 2 ?Q)" by blast
  from h r e d show ?thesis by blast
qed

section \<open>\<^verbatim>\<open>Compare\<close> is a total order\<close>

lemma CompareInteger_Equal: "(CompareInteger a b = Equal) = (a = b)"
  by (auto simp: CompareInteger_def)

lemma CompareInteger_LessThan: "(CompareInteger a b = LessThan) = (a < b)"
  by (auto simp: CompareInteger_def)

lemma Result_swap_Equal [simp]: "(Result_swap r = Equal) = (r = Equal)"
  by (cases r) auto

lemma Result_swap_eq_iff [simp]: "(Result_swap r = Result_swap s) = (r = s)"
  by (cases r; cases s) auto

lemma NodeKind_code_inj: "(NodeKind_code a = NodeKind_code b) = (a = b)"
  by (cases a; cases b) auto

lemma CompareKinds_Equal: "(CompareKinds a b = Equal) = (Kind a = Kind b)"
  by (simp add: CompareKinds_def CompareInteger_Equal NodeKind_code_inj)

lemma Compare_swap_aux:
  shows "LexAntisym Lex \<Longrightarrow> Compare Lex B A = Result_swap (Compare Lex A B)"
    and "LexAntisym Lex \<Longrightarrow> length As = length Bs \<Longrightarrow>
           CompareChildren Lex Bs As = Result_swap (CompareChildren Lex As Bs)"
proof (induction Lex A B and Lex As Bs rule: Compare_CompareChildren.induct)
  case (1 Lex Opc Children Other)
  then show ?case
    by (cases Other) (auto simp: CompareKinds_def CompareInteger_def)
next
  case (2 Lex Opc Child Other)
  then show ?case
    by (cases Other) (auto simp: CompareKinds_def CompareInteger_def)
next
  case (3 Lex FieldD IsArrow Base Other)
  from "3.prems" have d: "\<And>x. CompareDecl Lex x FieldD = Result_swap (CompareDecl Lex FieldD x)"
    unfolding LexAntisym_def by blast
  from 3 show ?case
    by (cases Other) (auto simp: CompareKinds_def CompareInteger_def d)
next
  case (4 Lex CK Child Other)
  then show ?case
    by (cases Other) (auto simp: CompareKinds_def CompareInteger_def)
next
  case (5 Lex E Other)
  from "5.prems" have e: "\<And>x. CompareExpr Lex x E = Result_swap (CompareExpr Lex E x)"
    unfolding LexAntisym_def by blast
  show ?case
    by (cases Other) (auto simp: CompareKinds_def CompareInteger_def e)
next
  case (6 Lex Others)
  then show ?case by simp
next
  case (7 Lex Child1 Children)
  then show ?case by simp
next
  case (8 Lex Child1 Children Child2 BChildren)
  then show ?case by auto
qed

lemma Compare_swap: "LexAntisym Lex \<Longrightarrow> Compare Lex B A = Result_swap (Compare Lex A B)"
  by (rule Compare_swap_aux)

lemma CompareChildren_Equal_congr:
  assumes "\<And>a b c. a \<in> set As \<Longrightarrow> Compare Lex a b = Equal \<Longrightarrow> Compare Lex a c = Compare Lex b c"
    and "CompareChildren Lex As Bs = Equal" and "length As = length Bs"
  shows "CompareChildren Lex As Cs = CompareChildren Lex Bs Cs"
  using assms
proof (induction As arbitrary: Bs Cs)
  case Nil
  from Nil.prems(3) show ?case by simp
next
  case (Cons a As)
  from Cons.prems(3) obtain b Bs' where Bs: "Bs = b # Bs'" by (cases Bs) auto
  from Cons.prems(2) Bs have ab: "Compare Lex a b = Equal" and rest: "CompareChildren Lex As Bs' = Equal"
    by (auto split: if_splits)
  show ?case
  proof (cases Cs)
    case Nil
    then show ?thesis using Bs by simp
  next
    case Cs: (Cons c Cs')
    have h: "Compare Lex a c = Compare Lex b c"
      using Cons.prems(1) [of a b c] ab by simp
    have p: "\<And>a b c. a \<in> set As \<Longrightarrow> Compare Lex a b = Equal \<Longrightarrow> Compare Lex a c = Compare Lex b c"
      using Cons.prems(1) by (meson list.set_intros(2))
    have l: "length As = length Bs'" using Cons.prems(3) Bs by simp
    have t: "CompareChildren Lex As Cs' = CompareChildren Lex Bs' Cs'"
      using p rest l by (rule Cons.IH)
    show ?thesis using Cs Bs h t ab by simp
  qed
qed

lemma Compare_Equal_Kind: "Compare Lex A B = Equal \<Longrightarrow> Kind A = Kind B"
  by (cases A) (auto simp: CompareKinds_Equal split: if_splits)

lemma Compare_Equal_congr:
  "LexEqCongr Lex \<Longrightarrow> Compare Lex A B = Equal \<Longrightarrow> Compare Lex A C = Compare Lex B C"
proof (induction A arbitrary: B C)
  case (BinaryOperatorNode Opc Children)
  from BinaryOperatorNode.prems(2) obtain BOpc BChildren where B: "B = BinaryOperatorNode BOpc BChildren"
    by (cases B) (auto simp: CompareKinds_def CompareInteger_def split: if_splits)
  from BinaryOperatorNode.prems(2) B have o: "BinaryOperatorKind_code Opc = BinaryOperatorKind_code BOpc"
    and l: "length Children = length BChildren" and c: "CompareChildren Lex Children BChildren = Equal"
    by (auto simp: CompareKinds_def CompareInteger_def split: if_splits)
  show ?case
  proof (cases C)
    case (BinaryOperatorNode COpc CChildren)
    have "CompareChildren Lex Children CChildren = CompareChildren Lex BChildren CChildren"
      using CompareChildren_Equal_congr [of Children Lex BChildren CChildren]
        BinaryOperatorNode.IH BinaryOperatorNode.prems(1) c l by blast
    then show ?thesis using B BinaryOperatorNode o l by (simp add: CompareKinds_def)
  qed (simp_all add: B CompareKinds_def)
next
  case (UnaryOperatorNode Opc Child)
  from UnaryOperatorNode.prems(2) obtain BOpc BChild where B: "B = UnaryOperatorNode BOpc BChild"
    by (cases B) (auto simp: CompareKinds_def CompareInteger_def split: if_splits)
  from UnaryOperatorNode.prems(2) B have o: "UnaryOperatorKind_code Opc = UnaryOperatorKind_code BOpc"
    and c: "Compare Lex Child BChild = Equal"
    by (auto simp: CompareKinds_def CompareInteger_def split: if_splits)
  show ?case
  proof (cases C)
    case (UnaryOperatorNode COpc CChild)
    have "Compare Lex Child CChild = Compare Lex BChild CChild"
      using UnaryOperatorNode.IH UnaryOperatorNode.prems(1) c by blast
    then show ?thesis using B UnaryOperatorNode o by (simp add: CompareKinds_def)
  qed (simp_all add: B CompareKinds_def)
next
  case (MemberNode FieldD IsArrow Base)
  from MemberNode.prems(2) obtain BField BIsArrow BBase where B: "B = MemberNode BField BIsArrow BBase"
    by (cases B) (auto simp: CompareKinds_def CompareInteger_def split: if_splits)
  from MemberNode.prems(2) B have a: "IsArrow = BIsArrow"
    and f: "CompareDecl Lex FieldD BField = Equal"
    and c: "Compare Lex Base BBase = Equal"
    by (auto simp: CompareKinds_def CompareInteger_def split: if_splits)
  show ?case
  proof (cases C)
    case (MemberNode CField CIsArrow CBase)
    have "Compare Lex Base CBase = Compare Lex BBase CBase"
      using MemberNode.IH MemberNode.prems(1) c by blast
    moreover have "CompareDecl Lex FieldD CField = CompareDecl Lex BField CField"
      using MemberNode.prems(1) f unfolding LexEqCongr_def by blast
    ultimately show ?thesis using B MemberNode a by (simp add: CompareKinds_def)
  qed (simp_all add: B CompareKinds_def)
next
  case (ImplicitCastNode CK Child)
  from ImplicitCastNode.prems(2) obtain BCK BChild where B: "B = ImplicitCastNode BCK BChild"
    by (cases B) (auto simp: CompareKinds_def CompareInteger_def split: if_splits)
  from ImplicitCastNode.prems(2) B have o: "CK = BCK"
    and c: "Compare Lex Child BChild = Equal"
    by (auto simp: CompareKinds_def CompareInteger_def split: if_splits)
  show ?case
  proof (cases C)
    case (ImplicitCastNode CCK CChild)
    have "Compare Lex Child CChild = Compare Lex BChild CChild"
      using ImplicitCastNode.IH ImplicitCastNode.prems(1) c by blast
    then show ?thesis using B ImplicitCastNode o by (simp add: CompareKinds_def)
  qed (simp_all add: B CompareKinds_def)
next
  case (LeafExprNode E)
  from LeafExprNode.prems(2) obtain BE where B: "B = LeafExprNode BE"
    by (cases B) (auto simp: CompareKinds_def CompareInteger_def split: if_splits)
  from LeafExprNode.prems(2) B have c: "CompareExpr Lex E BE = Equal"
    by (auto simp: CompareKinds_def CompareInteger_def split: if_splits)
  show ?case
  proof (cases C)
    case (LeafExprNode CE)
    have "CompareExpr Lex E CE = CompareExpr Lex BE CE"
      using LeafExprNode.prems(1) c unfolding LexEqCongr_def by blast
    then show ?thesis using B LeafExprNode by (simp add: CompareKinds_def)
  qed (simp_all add: B CompareKinds_def)
qed

lemma Result_swap_swap [simp]: "Result_swap (Result_swap r) = r"
  by (cases r) auto

lemma Compare_Equal_congr_right:
  assumes "LexAntisym Lex" and "LexEqCongr Lex" and "Compare Lex B C = Equal"
  shows "Compare Lex A B = Compare Lex A C"
proof -
  have cb: "Compare Lex C B = Equal"
    using Compare_swap [OF assms(1), of C B] assms(3) by simp
  have "Compare Lex C A = Compare Lex B A"
    using assms(2) cb by (rule Compare_Equal_congr)
  then have "Result_swap (Compare Lex A C) = Result_swap (Compare Lex A B)"
    using Compare_swap [OF assms(1), of C A] Compare_swap [OF assms(1), of B A] by simp
  then show ?thesis by simp
qed

lemma CompareChildren_not_GreaterThan:
  "CompareChildren Lex (a # As) (b # Bs) = LessThan \<Longrightarrow>
     Compare Lex a b = LessThan \<or> (Compare Lex a b = Equal \<and> CompareChildren Lex As Bs = LessThan)"
  by (auto split: if_splits)

lemma CompareChildren_LessThan_trans:
  assumes el: "\<And>a b c. a \<in> set As \<Longrightarrow> Compare Lex a b = LessThan \<Longrightarrow>
                  Compare Lex b c = LessThan \<Longrightarrow> Compare Lex a c = LessThan"
    and an: "LexAntisym Lex" and eq: "LexEqCongr Lex"
    and "length As = length Bs" and "length Bs = length Cs"
    and "CompareChildren Lex As Bs = LessThan" and "CompareChildren Lex Bs Cs = LessThan"
  shows "CompareChildren Lex As Cs = LessThan"
  using assms(1,4-7)
proof (induction As arbitrary: Bs Cs)
  case Nil
  from Nil.prems(4) show ?case by simp
next
  case (Cons a As)
  from Cons.prems(2) obtain b Bs' where Bs: "Bs = b # Bs'" by (cases Bs) auto
  from Cons.prems(3) Bs obtain c Cs' where Cs: "Cs = c # Cs'" by (cases Cs) auto
  have p: "\<And>a b c. a \<in> set As \<Longrightarrow> Compare Lex a b = LessThan \<Longrightarrow>
                  Compare Lex b c = LessThan \<Longrightarrow> Compare Lex a c = LessThan"
    using Cons.prems(1) by (meson list.set_intros(2))
  have l1: "length As = length Bs'" using Cons.prems(2) Bs by simp
  have l2: "length Bs' = length Cs'" using Cons.prems(3) Bs Cs by simp
  from Cons.prems(4) Bs have ab: "Compare Lex a b = LessThan \<or>
      (Compare Lex a b = Equal \<and> CompareChildren Lex As Bs' = LessThan)"
    by (simp add: CompareChildren_not_GreaterThan)
  from Cons.prems(5) Bs Cs have bc: "Compare Lex b c = LessThan \<or>
      (Compare Lex b c = Equal \<and> CompareChildren Lex Bs' Cs' = LessThan)"
    by (simp add: CompareChildren_not_GreaterThan)
  have h: "a \<in> set (a # As)" by simp
  from ab bc show ?case
  proof (elim disjE conjE)
    assume "Compare Lex a b = LessThan" "Compare Lex b c = LessThan"
    then have "Compare Lex a c = LessThan" using Cons.prems(1) [OF h] by blast
    then show ?thesis using Cs by simp
  next
    assume 1: "Compare Lex a b = LessThan" and 2: "Compare Lex b c = Equal"
    have "Compare Lex a c = LessThan"
      using Compare_Equal_congr_right [OF an eq 2, of a] 1 by simp
    then show ?thesis using Cs by simp
  next
    assume 1: "Compare Lex a b = Equal" and 2: "Compare Lex b c = LessThan"
    have "Compare Lex a c = LessThan"
      using Compare_Equal_congr [OF eq 1, of c] 2 by simp
    then show ?thesis using Cs by simp
  next
    assume 1: "Compare Lex a b = Equal" and 2: "Compare Lex b c = Equal"
      and 3: "CompareChildren Lex As Bs' = LessThan" and 4: "CompareChildren Lex Bs' Cs' = LessThan"
    have "Compare Lex a c = Equal"
      using Compare_Equal_congr [OF eq 1, of c] 2 by simp
    moreover have "CompareChildren Lex As Cs' = LessThan"
      using p l1 l2 3 4 by (rule Cons.IH)
    ultimately show ?thesis using Cs by simp
  qed
qed

lemma Compare_diff_Kind: "Kind A \<noteq> Kind B \<Longrightarrow> Compare Lex A B = CompareKinds A B"
  by (cases A) (simp_all add: CompareKinds_Equal)

lemma Compare_LessThan_Kind:
  "Compare Lex A B = LessThan \<Longrightarrow> NodeKind_code (Kind A) \<le> NodeKind_code (Kind B)"
  by (cases "Kind A = Kind B")
     (auto simp: Compare_diff_Kind CompareKinds_def CompareInteger_def split: if_splits)

lemma Compare_Kind_less:
  "NodeKind_code (Kind A) < NodeKind_code (Kind B) \<Longrightarrow> Compare Lex A B = LessThan"
  by (cases "Kind A = Kind B")
     (auto simp: Compare_diff_Kind CompareKinds_def CompareInteger_def)

lemma Compare_LessThan_trans:
  assumes an: "LexAntisym Lex" and eq: "LexEqCongr Lex" and tr: "LexTrans Lex"
  shows "Compare Lex A B = LessThan \<Longrightarrow> Compare Lex B C = LessThan \<Longrightarrow> Compare Lex A C = LessThan"
proof (induction A arbitrary: B C)
  case (BinaryOperatorNode Opc Children)
  note ab = BinaryOperatorNode.prems(1) and bc = BinaryOperatorNode.prems(2)
  show ?case
  proof (cases "NodeKind_code (Kind (BinaryOperatorNode Opc Children)) < NodeKind_code (Kind C)")
    case True
    then show ?thesis by (rule Compare_Kind_less)
  next
    case False
    with Compare_LessThan_Kind [OF ab] Compare_LessThan_Kind [OF bc]
    have "Kind B = BinaryOperatorNodeKind" "Kind C = BinaryOperatorNodeKind"
      by (auto simp: NodeKind_code_inj [symmetric] simp del: NodeKind_code_inj)
    then obtain BOpc BChildren COpc CChildren
      where B: "B = BinaryOperatorNode BOpc BChildren" and C: "C = BinaryOperatorNode COpc CChildren"
      by (cases B; cases C) auto
    have el: "\<And>a b c. a \<in> set Children \<Longrightarrow> Compare Lex a b = LessThan \<Longrightarrow>
                  Compare Lex b c = LessThan \<Longrightarrow> Compare Lex a c = LessThan"
      using BinaryOperatorNode.IH by blast
    have ch: "CompareChildren Lex Children CChildren = LessThan"
      if "length Children = length BChildren" "length BChildren = length CChildren"
         "CompareChildren Lex Children BChildren = LessThan"
         "CompareChildren Lex BChildren CChildren = LessThan"
      using el an eq that by (rule CompareChildren_LessThan_trans)
    from ab bc ch show ?thesis
      unfolding B C by (auto simp: CompareKinds_def CompareInteger_def split: if_splits)
  qed
next
  case (UnaryOperatorNode Opc Child)
  note ab = UnaryOperatorNode.prems(1) and bc = UnaryOperatorNode.prems(2)
  show ?case
  proof (cases "NodeKind_code (Kind (UnaryOperatorNode Opc Child)) < NodeKind_code (Kind C)")
    case True
    then show ?thesis by (rule Compare_Kind_less)
  next
    case False
    with Compare_LessThan_Kind [OF ab] Compare_LessThan_Kind [OF bc]
    have "NodeKind_code (Kind B) = 1" "NodeKind_code (Kind C) = 1"
      by auto
    then obtain BOpc BChild COpc CChild
      where B: "B = UnaryOperatorNode BOpc BChild" and C: "C = UnaryOperatorNode COpc CChild"
      by (cases B; cases C) auto
    have el: "Compare Lex Child BChild = LessThan \<Longrightarrow>
                  Compare Lex BChild CChild = LessThan \<Longrightarrow> Compare Lex Child CChild = LessThan"
      using UnaryOperatorNode.IH by blast
    from ab bc el show ?thesis
      unfolding B C by (auto simp: CompareKinds_def CompareInteger_def split: if_splits)
  qed
next
  case (MemberNode FieldD IsArrow Base)
  note ab = MemberNode.prems(1) and bc = MemberNode.prems(2)
  show ?case
  proof (cases "NodeKind_code (Kind (MemberNode FieldD IsArrow Base)) < NodeKind_code (Kind C)")
    case True
    then show ?thesis by (rule Compare_Kind_less)
  next
    case False
    with Compare_LessThan_Kind [OF ab] Compare_LessThan_Kind [OF bc]
    have "NodeKind_code (Kind B) = 2" "NodeKind_code (Kind C) = 2"
      by auto
    then obtain BField BIsArrow BBase CField CIsArrow CBase
      where B: "B = MemberNode BField BIsArrow BBase" and C: "C = MemberNode CField CIsArrow CBase"
      by (cases B; cases C) auto
    have el: "Compare Lex Base BBase = LessThan \<Longrightarrow>
                  Compare Lex BBase CBase = LessThan \<Longrightarrow> Compare Lex Base CBase = LessThan"
      using MemberNode.IH by blast
    have d1: "CompareDecl Lex FieldD BField = LessThan \<Longrightarrow> CompareDecl Lex BField CField = LessThan
        \<Longrightarrow> CompareDecl Lex FieldD CField = LessThan"
      using tr unfolding LexTrans_def by blast
    have d2: "CompareDecl Lex FieldD BField = Equal \<Longrightarrow>
        CompareDecl Lex FieldD CField = CompareDecl Lex BField CField"
      using eq unfolding LexEqCongr_def by blast
    have d3: "CompareDecl Lex BField CField = Equal \<Longrightarrow>
        CompareDecl Lex FieldD BField = CompareDecl Lex FieldD CField"
    proof -
      assume e: "CompareDecl Lex BField CField = Equal"
      have s: "\<And>x y. CompareDecl Lex x y = Result_swap (CompareDecl Lex y x)"
        using an unfolding LexAntisym_def by blast
      have "CompareDecl Lex CField BField = Equal" using s [of CField BField] e by simp
      then have "CompareDecl Lex CField FieldD = CompareDecl Lex BField FieldD"
        using eq unfolding LexEqCongr_def by blast
      then show ?thesis using s [of FieldD BField] s [of FieldD CField] by simp
    qed
    from ab bc el d1 d2 d3 show ?thesis
      unfolding B C by (auto simp: CompareKinds_def CompareInteger_def split: if_splits)
  qed
next
  case (ImplicitCastNode CK Child)
  note ab = ImplicitCastNode.prems(1) and bc = ImplicitCastNode.prems(2)
  show ?case
  proof (cases "NodeKind_code (Kind (ImplicitCastNode CK Child)) < NodeKind_code (Kind C)")
    case True
    then show ?thesis by (rule Compare_Kind_less)
  next
    case False
    with Compare_LessThan_Kind [OF ab] Compare_LessThan_Kind [OF bc]
    have "NodeKind_code (Kind B) = 3" "NodeKind_code (Kind C) = 3"
      by auto
    then obtain BCK BChild CCK CChild
      where B: "B = ImplicitCastNode BCK BChild" and C: "C = ImplicitCastNode CCK CChild"
      by (cases B; cases C) auto
    have el: "Compare Lex Child BChild = LessThan \<Longrightarrow>
                  Compare Lex BChild CChild = LessThan \<Longrightarrow> Compare Lex Child CChild = LessThan"
      using ImplicitCastNode.IH by blast
    from ab bc el show ?thesis
      unfolding B C by (auto simp: CompareKinds_def CompareInteger_def split: if_splits)
  qed
next
  case (LeafExprNode E)
  note ab = LeafExprNode.prems(1) and bc = LeafExprNode.prems(2)
  from Compare_LessThan_Kind [OF ab] Compare_LessThan_Kind [OF bc]
  have "NodeKind_code (Kind B) = 4" "NodeKind_code (Kind C) = 4"
    by (cases "Kind B"; cases "Kind C"; simp)+
  then obtain BE CE where B: "B = LeafExprNode BE" and C: "C = LeafExprNode CE"
    by (cases B; cases C) auto
  have d1: "CompareExpr Lex E BE = LessThan \<Longrightarrow> CompareExpr Lex BE CE = LessThan
      \<Longrightarrow> CompareExpr Lex E CE = LessThan"
    using tr unfolding LexTrans_def by blast
  from ab bc d1 show ?case
    unfolding B C by (auto simp: CompareKinds_def CompareInteger_def split: if_splits)
qed

section \<open>Normalisation terminates\<close>

lemma Coalesce_None_not_Merges: "Coalesce None Err N \<noteq> (Merges Cs, Ch)"
  by (cases N) (auto simp: CanCoalesce_def split: prod.splits Placement.splits)

lemma PlacementShrinks_Stays [simp]:
  "PlacementShrinks N (Stays N', Ch) = (size N' \<le> size N \<and> (Ch \<longrightarrow> size N' < size N))"
  by (simp add: PlacementShrinks_def)

lemma PlacementShrinks_Merges [simp]:
  "PlacementShrinks N (Merges Cs, Ch) = (size_list size Cs < size N)"
  by (simp add: PlacementShrinks_def)

lemma Coalesce_size:
  shows "PlacementShrinks N (Coalesce Parent Err N)"
    and "size_list size (fst (CoalesceChildren Opc End I Cs Ch0)) \<le> size_list size Cs
         \<and> (snd (CoalesceChildren Opc End I Cs Ch0) \<longrightarrow>
                Ch0 \<or> size_list size (fst (CoalesceChildren Opc End I Cs Ch0)) < size_list size Cs)"
proof (induction Parent Err N and Opc End I Cs Ch0 rule: Coalesce_CoalesceChildren.induct)
  case (1 Parent Err Opc Children)
  show ?case
  proof (cases Err)
    case True
    then show ?thesis by simp
  next
    case False
    obtain Children1 Ch where c: "CoalesceChildren Opc (length Children) 0 Children False = (Children1, Ch)"
      by (cases "CoalesceChildren Opc (length Children) 0 Children False")
    from "1.IH" [OF False] c False show ?thesis by auto
  qed
next
  case (2 Parent Err Opc Child)
  then show ?case
    by (cases "Coalesce None Err Child"; cases "fst (Coalesce None Err Child)")
       (auto simp: Coalesce_None_not_Merges)
next
  case (3 Parent Err FieldD IsArrow Base)
  then show ?case
    by (cases "Coalesce None Err Base"; cases "fst (Coalesce None Err Base)")
       (auto simp: Coalesce_None_not_Merges)
next
  case (4 Parent Err CK Child)
  then show ?case
    by (cases "Coalesce None Err Child"; cases "fst (Coalesce None Err Child)")
       (auto simp: Coalesce_None_not_Merges)
next
  case (5 Parent Err E)
  then show ?case by simp
next
  case (6 Opc End I Children Changed)
  show ?case
  proof (cases "End \<le> I \<or> length Children \<le> I")
    case True
    then show ?thesis by (simp add: CoalesceChildren.simps)
  next
    case False
    then have lt: "I < length Children" by simp
    obtain P Ch1 where c: "Coalesce (Some Opc) False (Children ! I) = (P, Ch1)"
      by (cases "Coalesce (Some Opc) False (Children ! I)")
    have b: "PlacementShrinks (Children ! I) (P, Ch1)" using "6.IH"(1) [OF False] c by simp
    show ?thesis
    proof (cases P)
      case (Stays C)
      let ?R = "CoalesceChildren Opc End (Suc I) (Children[I := C]) (Changed \<or> Ch1)"
      from b Stays have sc: "size C \<le> size (Children ! I)"
        and st: "Ch1 \<longrightarrow> size C < size (Children ! I)" by simp_all
      have ih: "size_list size (fst ?R) \<le> size_list size (Children[I := C])
                \<and> (snd ?R \<longrightarrow> (Changed \<or> Ch1)
                      \<or> size_list size (fst ?R) < size_list size (Children[I := C]))"
        using "6.IH"(2) [OF False c [symmetric] Stays] .
      have u: "size_list size (Children[I := C]) + size (Children ! I) = size_list size Children + size C"
        by (rule size_list_update [OF lt])
      have e: "CoalesceChildren Opc End I Children Changed = ?R"
        using False c Stays by (subst CoalesceChildren.simps) simp
      from ih u sc st show ?thesis unfolding e by auto
    next
      case (Merges Gs)
      let ?L = "take I Children @ drop (Suc I) Children @ Gs"
      let ?R = "CoalesceChildren Opc End (Suc I) ?L True"
      from b Merges have sg: "size_list size Gs < size (Children ! I)" by simp
      have ih: "size_list size (fst ?R) \<le> size_list size ?L"
        using "6.IH"(3) [OF False c [symmetric] Merges] by simp
      have u: "size_list size (take I Children @ drop (Suc I) Children) + Suc (size (Children ! I))
                 = size_list size Children"
        by (rule size_list_erase [OF lt])
      have e: "CoalesceChildren Opc End I Children Changed = ?R"
        using False c Merges by (subst CoalesceChildren.simps) simp
      from ih u sg show ?thesis unfolding e by auto
    qed
  qed
qed

lemma size_list_insert_sorted:
  "size_list size (insert_sorted Lex N Ms) = Suc (size N + size_list size Ms)"
  by (induction Ms) auto

lemma size_list_llvm_sort: "size_list size (llvm_sort Lex Ns) = size_list size Ns"
  by (induction Ns) (auto simp: llvm_sort_def size_list_insert_sorted)

lemma size_list_map_cong:
  "(\<And>x. x \<in> set xs \<Longrightarrow> size (f x) = size x) \<Longrightarrow> size_list (\<lambda>x. size (f x)) xs = size_list size xs"
  by (induction xs) auto

lemma Sort_size: "size (Sort Lex N) = size N"
proof (induction N)
  case (BinaryOperatorNode Opc Children)
  have "size_list (\<lambda>x. size (Sort Lex x)) Children = size_list size Children"
    using BinaryOperatorNode.IH by (rule size_list_map_cong)
  then show ?case by (simp add: size_list_llvm_sort comp_def)
qed simp_all

lemma FoldLeaf_Done [simp]: "Done (FoldLeaf Opc C St) = Done St @ [C]"
  by (auto simp: FoldLeaf_def Let_def split: Node.splits option.splits prod.splits)

lemma FoldLeaf_Tail [simp]: "Tail (FoldLeaf Opc C St) = Tail St"
  by (auto simp: FoldLeaf_def Let_def split: Node.splits option.splits prod.splits)

lemma FoldLeaf_Changed [simp]: "FoldChanged (FoldLeaf Opc C St) = FoldChanged St"
  by (auto simp: FoldLeaf_def Let_def split: Node.splits option.splits prod.splits)

lemma FoldLeaf_Inv: "FoldInv St \<Longrightarrow> FoldInv (FoldLeaf Opc C St)"
  by (auto simp: FoldInv_def FoldLeaf_def Let_def split: Node.splits option.splits prod.splits)

lemma FoldMoved_props:
  "Tail St = [] \<Longrightarrow>
     size_list size (Done (FoldMoved Opc Ms St)) + size_list size (Tail (FoldMoved Opc Ms St))
       = size_list size (Done St) + size_list size Ms
     \<and> FoldChanged (FoldMoved Opc Ms St) = FoldChanged St
     \<and> (FoldInv St \<longrightarrow> FoldInv (FoldMoved Opc Ms St))"
proof (induction Ms arbitrary: St)
  case Nil
  then show ?case by simp
next
  case (Cons M Ms)
  show ?case
  proof (cases "Returned (FoldLeaf Opc M St)")
    case True
    have "FoldInv St \<longrightarrow> FoldInv (FoldLeaf Opc M St\<lparr>Tail := Ms\<rparr>)"
      using FoldLeaf_Inv [of St Opc M] by (simp add: FoldInv_def)
    then show ?thesis using True Cons.prems
      by (simp add: Let_def)
  next
    case False
    have t: "Tail (FoldLeaf Opc M St) = []" using Cons.prems by simp
    from Cons.IH [OF t] False show ?thesis
      by (auto simp: Let_def FoldLeaf_Inv)
  qed
qed

lemma FoldMoved_bound:
  assumes "Tail St = []"
  shows "FoldBound St [] Ms (FoldMoved Opc Ms St)"
  using FoldMoved_props [OF assms, of Opc Ms] by (simp add: FoldBound_def)

lemma take_drop_size:
  "a + k \<le> length xs \<Longrightarrow>
     size_list size (take a xs) + size_list size (drop (a + k) xs) + k \<le> size_list size xs"
proof (induction xs arbitrary: a k)
  case Nil
  then show ?case by simp
next
  case (Cons x xs)
  show ?case
  proof (cases a)
    case 0
    show ?thesis
    proof (cases k)
      case 0
      then show ?thesis using \<open>a = 0\<close> by simp
    next
      case (Suc k')
      with Cons.prems \<open>a = 0\<close> have "0 + k' \<le> length xs" by simp
      from Cons.IH [OF this] Suc \<open>a = 0\<close> show ?thesis by simp
    qed
  next
    case (Suc a')
    with Cons.prems have "a' + k \<le> length xs" by simp
    from Cons.IH [OF this] Suc show ?thesis by simp
  qed
qed

lemma CanCoalesce_None [simp]: "CanCoalesce Opc n None = False"
  by (simp add: CanCoalesce_def)

lemma ConstantFold_None_not_Merges: "fst (ConstantFold None Err N) \<noteq> Merges Cs"
  by (cases N) (auto simp: Let_def split: prod.splits Placement.splits)

lemma ConstantFold_size:
  shows "PlacementShrinks N (fst (ConstantFold Parent Err N), fst (snd (ConstantFold Parent Err N)))"
    and "Tail St = [] \<Longrightarrow> FoldBound St Rest Moved (ConstantFoldChildren Opc Rest Moved St)"
proof (induction Parent Err N and Opc Rest Moved St rule: ConstantFold_ConstantFoldChildren.induct)
  case (1 Parent Err Opc Children)
  show ?case
  proof (cases Err)
    case True
    then show ?thesis by simp
  next
    case False
    define St where "St = ConstantFoldChildren Opc Children [] FoldState_init"
    have t: "Tail FoldState_init = []" by (simp add: FoldState_init_def)
    have b: "FoldBound FoldState_init Children [] St"
      unfolding St_def using "1.IH" [OF False t] .
    have i: "FoldInv FoldState_init" by (simp add: FoldInv_def FoldState_init_def)
    from b i have inv: "FoldInv St" by (simp add: FoldBound_def)
    from b have sz: "size_list size (Done St @ Tail St) \<le> size_list size Children"
      and ch: "FoldChanged St \<longrightarrow> size_list size (Done St @ Tail St) < size_list size Children"
      by (auto simp: FoldBound_def FoldState_init_def split: if_splits)
    show ?thesis
    proof (cases "Returned St \<or> NumConsts St \<le> 1")
      case True
      then show ?thesis using False sz ch by (auto simp: St_def [symmetric] Let_def)
    next
      case f: False
      then have k: "2 \<le> NumConsts St" by simp
      from inv k have bd: "ConstStartIdx St + NumConsts St \<le> length (Done St @ Tail St)"
        by (auto simp: FoldInv_def)
      define C2 where "C2 = take (ConstStartIdx St) (Done St @ Tail St)
                             @ drop (ConstStartIdx St + NumConsts St) (Done St @ Tail St)
                             @ [LeafExprNode (IntegerLiteral (ConstFoldedVal St))]"
      have "size_list size C2 + NumConsts St \<le> Suc (size_list size (Done St @ Tail St))"
        using take_drop_size [OF bd] unfolding C2_def by simp
      with k sz have lt: "size_list size C2 < size_list size Children" by simp
      have cs: "PlacementShrinks (BinaryOperatorNode Opc C2)
                  (Coalesce Parent (FoldError St) (BinaryOperatorNode Opc C2))"
        by (rule Coalesce_size)
      have r: "ConstantFold Parent Err (BinaryOperatorNode Opc Children) =
                 (if length C2 = 1 \<and> CanCoalesce Opc (length C2) Parent
                  then (fst (Coalesce Parent (FoldError St) (BinaryOperatorNode Opc C2)), True, FoldError St)
                  else (Stays (BinaryOperatorNode Opc C2), True, FoldError St))"
      proof -
        have e: "Err = False" using False by simp
        have fr: "Returned (ConstantFoldChildren Opc Children [] FoldState_init) = False"
          using f by (simp add: St_def)
        have fn: "(NumConsts (ConstantFoldChildren Opc Children [] FoldState_init) \<le> 1) = False"
          using f by (simp add: St_def)
        show ?thesis
          unfolding C2_def St_def
          by (simp only: ConstantFold.simps Let_def e fr fn if_False)
      qed
      define P where "P = fst (Coalesce Parent (FoldError St) (BinaryOperatorNode Opc C2))"
      have cs': "case P of Stays N' \<Rightarrow> size N' \<le> size (BinaryOperatorNode Opc C2)
                 | Merges Cs \<Rightarrow> size_list size Cs < size (BinaryOperatorNode Opc C2)"
        using cs unfolding PlacementShrinks_def P_def by (cases P) (auto split: Placement.splits)
      have g: "PlacementShrinks (BinaryOperatorNode Opc Children) (P, True)"
        using cs' lt by (cases P) auto
      have g2: "PlacementShrinks (BinaryOperatorNode Opc Children) (Stays (BinaryOperatorNode Opc C2), True)"
        using lt by simp
      show ?thesis
        using g g2 by (simp only: r P_def fst_conv snd_conv simp_thms split: if_splits)
    qed
  qed
next
  case (2 Parent Err Opc Child)
  show ?case
  proof (cases Err)
    case True
    then show ?thesis by simp
  next
    case False
    obtain P Ch Er where r: "ConstantFold None Err Child = (P, Ch, Er)"
      by (cases "ConstantFold None Err Child") auto
    from ConstantFold_None_not_Merges [of Err Child] r obtain C where P: "P = Stays C"
      by (cases P) auto
    from "2.IH" [OF False] r P False show ?thesis by simp
  qed
next
  case (3 Parent Err FieldD IsArrow Base)
  show ?case
  proof (cases Err)
    case True
    then show ?thesis by simp
  next
    case False
    obtain P Ch Er where r: "ConstantFold None Err Base = (P, Ch, Er)"
      by (cases "ConstantFold None Err Base") auto
    from ConstantFold_None_not_Merges [of Err Base] r obtain C where P: "P = Stays C"
      by (cases P) auto
    from "3.IH" [OF False] r P False show ?thesis by simp
  qed
next
  case (4 Parent Err CK Child)
  show ?case
  proof (cases Err)
    case True
    then show ?thesis by simp
  next
    case False
    obtain P Ch Er where r: "ConstantFold None Err Child = (P, Ch, Er)"
      by (cases "ConstantFold None Err Child") auto
    from ConstantFold_None_not_Merges [of Err Child] r obtain C where P: "P = Stays C"
      by (cases P) auto
    from "4.IH" [OF False] r P False show ?thesis by simp
  qed
next
  case (5 Parent Err E)
  then show ?case by simp
next
  case (6 Opc Moved St)
  then show ?case by (simp add: FoldMoved_bound)
next
  case (7 Opc Child Rest Moved St)
  note t = "7.prems"
  show ?case
  proof (cases "isLeafExprNode Child")
    case True
    define St1 where "St1 = FoldLeaf Opc Child St"
    show ?thesis
    proof (cases "Returned St1")
      case r: True
      have "FoldInv St \<longrightarrow> FoldInv (St1\<lparr>Tail := Rest @ Moved\<rparr>)"
        using FoldLeaf_Inv [of St Opc Child] by (simp add: FoldInv_def St1_def)
      then have "FoldBound St (Child # Rest) Moved (St1\<lparr>Tail := Rest @ Moved\<rparr>)"
        by (simp add: FoldBound_def St1_def)
      then show ?thesis using True r by (simp add: St1_def Let_def)
    next
      case r: False
      have t1: "Tail St1 = []" using t by (simp add: St1_def)
      have b: "FoldBound St1 Rest Moved (ConstantFoldChildren Opc Rest Moved St1)"
        using "7.IH"(1) [OF True St1_def r t1] .
      have "FoldBound St (Child # Rest) Moved (ConstantFoldChildren Opc Rest Moved St1)"
        using b FoldLeaf_Inv [of St Opc Child] by (auto simp: FoldBound_def St1_def)
      then show ?thesis using True r by (simp add: St1_def Let_def)
    qed
  next
    case False
    obtain P Ch Er where r: "ConstantFold (Some Opc) (FoldError St) Child = (P, Ch, Er)"
      by (cases "ConstantFold (Some Opc) (FoldError St) Child") auto
    have ps: "PlacementShrinks Child (P, Ch)" using "7.IH"(2) [OF False] r by simp
    show ?thesis
    proof (cases P)
      case (Stays C)
      define St2 where "St2 = St\<lparr>Done := Done St @ [C], FoldChanged := FoldChanged St \<or> Ch, FoldError := Er\<rparr>"
      have t2: "Tail St2 = []" using t by (simp add: St2_def)
      have b: "FoldBound St2 Rest Moved (ConstantFoldChildren Opc Rest Moved St2)"
        using "7.IH"(3) [OF False r [symmetric] Stays refl] t2 unfolding St2_def by blast
      have "FoldBound St (Child # Rest) Moved (ConstantFoldChildren Opc Rest Moved St2)"
        using b ps Stays by (auto simp: FoldBound_def St2_def FoldInv_def split: if_splits)
      then show ?thesis using False r Stays by (simp add: St2_def)
    next
      case (Merges Cs)
      with ps have lt: "size_list size Cs < size Child" by simp
      show ?thesis
      proof (cases Rest)
        case (Cons Next Rest1)
        define St3 where "St3 = St\<lparr>Done := Done St @ [Next], FoldChanged := True, FoldError := Er\<rparr>"
        have t3: "Tail St3 = []" using t by (simp add: St3_def)
        have b: "FoldBound St3 Rest1 (Moved @ Cs) (ConstantFoldChildren Opc Rest1 (Moved @ Cs) St3)"
          using "7.IH"(4) [OF False r [symmetric] Merges refl Cons] t3 unfolding St3_def by blast
        have "FoldBound St (Child # Rest) Moved (ConstantFoldChildren Opc Rest1 (Moved @ Cs) St3)"
          using b lt Cons by (auto simp: FoldBound_def St3_def FoldInv_def split: if_splits)
        then show ?thesis using False r Merges Cons by (simp add: St3_def)
      next
        case Nil
        show ?thesis
        proof (cases "Moved @ Cs")
          case n: Nil
          have "FoldBound St (Child # Rest) Moved (St\<lparr>FoldChanged := True, FoldError := Er\<rparr>)"
            using t by (auto simp: FoldBound_def FoldInv_def)
          then show ?thesis using False r Merges Nil n by simp
        next
          case (Cons M Ms)
          define St4 where "St4 = St\<lparr>Done := Done St @ [M], FoldChanged := True, FoldError := Er\<rparr>"
          have t4: "Tail St4 = []" using t by (simp add: St4_def)
          have b: "FoldBound St4 [] Ms (FoldMoved Opc Ms St4)"
            using t4 by (rule FoldMoved_bound)
          have sz: "size_list size (Moved @ Cs) = Suc (size M + size_list size Ms)"
            using Cons by simp
          have "FoldBound St (Child # Rest) Moved (FoldMoved Opc Ms St4)"
            using b lt sz Nil by (auto simp: FoldBound_def St4_def FoldInv_def split: if_splits)
          then show ?thesis using False r Merges Nil Cons by (simp add: St4_def)
        qed
      qed
    qed
  qed
qed

lemma Normalize_step_size:
  assumes c: "Coalesce None Err Root0 = (P1, Changed1)"
    and f: "ConstantFold None Err (Sort Lex (PlacedNode P1 Root0)) = (P3, Changed3, Err3)"
    and ch: "Changed1 \<or> Changed3"
  shows "size (PlacedNode P3 (Sort Lex (PlacedNode P1 Root0))) < size Root0"
proof -
  from Coalesce_None_not_Merges [of Err Root0] c obtain R1 where P1: "P1 = Stays R1"
    by (cases P1) auto
  from ConstantFold_None_not_Merges [of Err "Sort Lex (PlacedNode P1 Root0)"] f
  obtain R3 where P3: "P3 = Stays R3"
    by (cases P3) auto
  have a: "PlacementShrinks Root0 (P1, Changed1)"
    using Coalesce_size(1) [of Root0 None Err] c by simp
  have b: "PlacementShrinks (Sort Lex R1) (P3, Changed3)"
    using ConstantFold_size(1) [of "Sort Lex R1" None Err] f P1 by simp
  from a b ch P1 P3 show ?thesis
    by (auto simp: Sort_size)
qed

termination NormalizeLoop
proof (relation "measure (\<lambda>(Lex, Root0, Err). size Root0)", goal_cases)
  case 1
  show ?case by simp
next
  case (2 Lex Root0 Err P1 Changed1 x y Changed3 Err3)
  then show ?case
    using Normalize_step_size [of Err Root0 P1 Changed1 Lex x Changed3 Err3] by simp
qed

section \<open>Sorted lists are unique\<close>

lemma BinaryOperatorKind_code_inj:
  "(BinaryOperatorKind_code a = BinaryOperatorKind_code b) = (a = b)"
  by (cases a; cases b) simp_all

lemma UnaryOperatorKind_code_inj:
  "(UnaryOperatorKind_code a = UnaryOperatorKind_code b) = (a = b)"
  by (cases a; cases b) simp_all

lemma CompareChildren_Equal_eq:
  assumes "\<And>a b. a \<in> set As \<Longrightarrow> Compare Lex a b = Equal \<Longrightarrow> a = b"
    and "length As = length Bs" and "CompareChildren Lex As Bs = Equal"
  shows "As = Bs"
  using assms
proof (induction As arbitrary: Bs)
  case Nil
  then show ?case by simp
next
  case (Cons a As)
  from Cons.prems(2) obtain b Bs' where Bs: "Bs = b # Bs'" by (cases Bs) auto
  from Cons.prems(3) Bs have ab: "Compare Lex a b = Equal" and r: "CompareChildren Lex As Bs' = Equal"
    by (auto split: if_splits)
  have "a = b" using Cons.prems(1) [of a b] ab by simp
  moreover have "As = Bs'"
  proof (rule Cons.IH)
    show "\<And>a b. a \<in> set As \<Longrightarrow> Compare Lex a b = Equal \<Longrightarrow> a = b"
      using Cons.prems(1) by (meson list.set_intros(2))
    show "length As = length Bs'" using Cons.prems(2) Bs by simp
    show "CompareChildren Lex As Bs' = Equal" by (rule r)
  qed
  ultimately show ?case using Bs by simp
qed

lemma Compare_Equal_eq:
  "LexEqIdent Lex \<Longrightarrow> Compare Lex A B = Equal \<Longrightarrow> A = B"
proof (induction A arbitrary: B)
  case (BinaryOperatorNode Opc Children)
  from BinaryOperatorNode.prems(2) obtain BOpc BChildren where B: "B = BinaryOperatorNode BOpc BChildren"
    by (cases B) (auto simp: CompareKinds_def CompareInteger_def split: if_splits)
  from BinaryOperatorNode.prems(2) B have o: "BinaryOperatorKind_code Opc = BinaryOperatorKind_code BOpc"
    and l: "length Children = length BChildren" and c: "CompareChildren Lex Children BChildren = Equal"
    by (auto simp: CompareKinds_def CompareInteger_def split: if_splits)
  have "Children = BChildren"
  proof (rule CompareChildren_Equal_eq)
    show "\<And>a b. a \<in> set Children \<Longrightarrow> Compare Lex a b = Equal \<Longrightarrow> a = b"
      using BinaryOperatorNode.IH BinaryOperatorNode.prems(1) by blast
  qed (rule l, rule c)
  then show ?case using B o by (simp add: BinaryOperatorKind_code_inj)
next
  case (UnaryOperatorNode Opc Child)
  from UnaryOperatorNode.prems(2) obtain BOpc BChild where B: "B = UnaryOperatorNode BOpc BChild"
    by (cases B) (auto simp: CompareKinds_def CompareInteger_def split: if_splits)
  from UnaryOperatorNode.prems(2) B have o: "UnaryOperatorKind_code Opc = UnaryOperatorKind_code BOpc"
    and c: "Compare Lex Child BChild = Equal"
    by (auto simp: CompareKinds_def CompareInteger_def split: if_splits)
  have "Child = BChild" using UnaryOperatorNode.IH UnaryOperatorNode.prems(1) c by blast
  then show ?case using B o by (simp add: UnaryOperatorKind_code_inj)
next
  case (MemberNode FieldD IsArrow Base)
  from MemberNode.prems(2) obtain BField BIsArrow BBase where B: "B = MemberNode BField BIsArrow BBase"
    by (cases B) (auto simp: CompareKinds_def CompareInteger_def split: if_splits)
  from MemberNode.prems(2) B have a: "IsArrow = BIsArrow"
    and f: "CompareDecl Lex FieldD BField = Equal"
    and c: "Compare Lex Base BBase = Equal"
    by (auto simp: CompareKinds_def CompareInteger_def split: if_splits)
  have "Base = BBase" using MemberNode.IH MemberNode.prems(1) c by blast
  moreover have "FieldD = BField" using MemberNode.prems(1) f unfolding LexEqIdent_def by blast
  ultimately show ?case using B a by simp
next
  case (ImplicitCastNode CK Child)
  from ImplicitCastNode.prems(2) obtain BCK BChild where B: "B = ImplicitCastNode BCK BChild"
    by (cases B) (auto simp: CompareKinds_def CompareInteger_def split: if_splits)
  from ImplicitCastNode.prems(2) B have o: "CK = BCK"
    and c: "Compare Lex Child BChild = Equal"
    by (auto simp: CompareKinds_def CompareInteger_def split: if_splits)
  have "Child = BChild" using ImplicitCastNode.IH ImplicitCastNode.prems(1) c by blast
  then show ?case using B o by simp
next
  case (LeafExprNode E)
  from LeafExprNode.prems(2) obtain BE where B: "B = LeafExprNode BE"
    by (cases B) (auto simp: CompareKinds_def CompareInteger_def split: if_splits)
  from LeafExprNode.prems(2) B have c: "CompareExpr Lex E BE = Equal"
    by (auto simp: CompareKinds_def CompareInteger_def split: if_splits)
  have "E = BE" using LeafExprNode.prems(1) c unfolding LexEqIdent_def by blast
  then show ?case using B by simp
qed

lemma LexEqIdent_EqCongr: "LexEqIdent Lex \<Longrightarrow> LexEqCongr Lex"
  unfolding LexEqIdent_def LexEqCongr_def by metis

lemma NodeLe_LessThan: "Compare Lex A B = LessThan \<Longrightarrow> NodeLe Lex A B"
  by (simp add: NodeLe_def)

lemma NodeLe_not_LessThan:
  "LexAntisym Lex \<Longrightarrow> Compare Lex A B \<noteq> LessThan \<Longrightarrow> NodeLe Lex B A"
  using Compare_swap [of Lex A B] by (cases "Compare Lex A B") (auto simp: NodeLe_def)

lemma NodeLe_trans:
  assumes an: "LexAntisym Lex" and tr: "LexTrans Lex" and eq: "LexEqCongr Lex"
    and ab: "NodeLe Lex A B" and bc: "NodeLe Lex B C"
  shows "NodeLe Lex A C"
proof (cases "Compare Lex A B")
  case LessThan
  show ?thesis
  proof (cases "Compare Lex B C")
    case lt: LessThan
    from Compare_LessThan_trans [OF an eq tr LessThan lt] show ?thesis by (simp add: NodeLe_def)
  next
    case Equal
    from Compare_Equal_congr_right [OF an eq Equal, of A] LessThan show ?thesis
      by (simp add: NodeLe_def)
  next
    case GreaterThan
    with bc show ?thesis by (simp add: NodeLe_def)
  qed
next
  case Equal
  from Compare_Equal_congr [OF eq Equal, of C] bc show ?thesis by (simp add: NodeLe_def)
next
  case GreaterThan
  with ab show ?thesis by (simp add: NodeLe_def)
qed

lemma NodeLe_antisym:
  assumes an: "LexAntisym Lex" and id: "LexEqIdent Lex"
    and ab: "NodeLe Lex A B" and ba: "NodeLe Lex B A"
  shows "A = B"
proof -
  have "Compare Lex A B = Equal"
    using ab ba Compare_swap [OF an, of B A] by (cases "Compare Lex A B") (auto simp: NodeLe_def)
  with id show ?thesis by (rule Compare_Equal_eq)
qed

lemma set_insert_sorted [simp]: "set (insert_sorted Lex N Ms) = insert N (set Ms)"
  by (induction Ms) auto

lemma mset_insert_sorted [simp]: "mset (insert_sorted Lex N Ms) = add_mset N (mset Ms)"
  by (induction Ms) auto

lemma mset_llvm_sort [simp]: "mset (llvm_sort Lex Ns) = mset Ns"
  by (induction Ns) (auto simp: llvm_sort_def)

lemma sorted_insert_sorted:
  assumes an: "LexAntisym Lex" and tr: "LexTrans Lex" and eq: "LexEqCongr Lex"
  shows "sorted_wrt (NodeLe Lex) Ms \<Longrightarrow> sorted_wrt (NodeLe Lex) (insert_sorted Lex N Ms)"
proof (induction Ms)
  case Nil
  then show ?case by simp
next
  case (Cons M Ms)
  show ?case
  proof (cases "Compare Lex N M = LessThan")
    case True
    then have nm: "NodeLe Lex N M" by (rule NodeLe_LessThan)
    have "\<forall>x\<in>set Ms. NodeLe Lex N x"
      using Cons.prems nm NodeLe_trans [OF an tr eq] by auto
    with True nm Cons.prems show ?thesis by simp
  next
    case False
    then have mn: "NodeLe Lex M N" using an by (rule NodeLe_not_LessThan [rotated])
    with False Cons show ?thesis by auto
  qed
qed

lemma sorted_llvm_sort:
  assumes an: "LexAntisym Lex" and tr: "LexTrans Lex" and eq: "LexEqCongr Lex"
  shows "sorted_wrt (NodeLe Lex) (llvm_sort Lex Ns)"
proof (induction Ns)
  case Nil
  then show ?case by (simp add: llvm_sort_def)
next
  case (Cons N Ns)
  have "llvm_sort Lex (N # Ns) = insert_sorted Lex N (llvm_sort Lex Ns)"
    by (simp add: llvm_sort_def)
  with Cons sorted_insert_sorted [OF an tr eq] show ?case by simp
qed

lemma sorted_wrt_mset_unique:
  assumes anti: "\<And>a b. R a b \<Longrightarrow> R b a \<Longrightarrow> a = b"
  shows "sorted_wrt R xs \<Longrightarrow> sorted_wrt R ys \<Longrightarrow> mset xs = mset ys \<Longrightarrow> xs = ys"
proof (induction xs arbitrary: ys)
  case Nil
  then show ?case by simp
next
  case (Cons x xs)
  from Cons.prems(3) obtain y ys' where ys: "ys = y # ys'" by (cases ys) auto
  have xy: "x = y"
  proof (rule ccontr)
    assume ne: "x \<noteq> y"
    have "x \<in># mset ys" using Cons.prems(3) by (metis mset.simps(2) union_single_eq_member)
    with ne ys have "x \<in> set ys'" by simp
    with Cons.prems(2) ys have 1: "R y x" by simp
    have "y \<in># mset (x # xs)" using Cons.prems(3) ys by simp
    with ne have "y \<in> set xs" by auto
    with Cons.prems(1) have 2: "R x y" by simp
    from anti [OF 2 1] ne show False by simp
  qed
  have "xs = ys'"
  proof (rule Cons.IH)
    show "sorted_wrt R xs" using Cons.prems(1) by simp
    show "sorted_wrt R ys'" using Cons.prems(2) ys by simp
    show "mset xs = mset ys'" using Cons.prems(3) ys xy by simp
  qed
  with xy ys show ?case by simp
qed

lemma llvm_sort_mset_cong:
  assumes lin: "LexLinearOrder2 Lex" and m: "mset Xs = mset Ys"
  shows "llvm_sort Lex Xs = llvm_sort Lex Ys"
proof -
  from lin have an: "LexAntisym Lex" and tr: "LexTrans Lex" and id: "LexEqIdent Lex"
    by (simp_all add: LexLinearOrder2_def)
  have eq: "LexEqCongr Lex" using id by (rule LexEqIdent_EqCongr)
  show ?thesis
  proof (rule sorted_wrt_mset_unique)
    show "\<And>a b. NodeLe Lex a b \<Longrightarrow> NodeLe Lex b a \<Longrightarrow> a = b"
      using NodeLe_antisym [OF an id] by blast
    show "sorted_wrt (NodeLe Lex) (llvm_sort Lex Xs)" using an tr eq by (rule sorted_llvm_sort)
    show "sorted_wrt (NodeLe Lex) (llvm_sort Lex Ys)" using an tr eq by (rule sorted_llvm_sort)
    show "mset (llvm_sort Lex Xs) = mset (llvm_sort Lex Ys)" using m by simp
  qed
qed

section \<open>The tree that \<^verbatim>\<open>Create\<close> builds\<close>

declare Create.simps [simp del] AddZero.simps [simp del]

lemma AttachNode_good [simp]: "GoodParent Parent S \<Longrightarrow> AttachNode N Parent S = S"
  by (simp add: AttachNode_def GoodParent_def)

lemma GoodParent_simps [simp]:
  "GoodParent (Some BinaryOperatorNodeKind) S = (\<not> RootIsNull S)"
  "GoodParent (Some UnaryOperatorNodeKind) S = (\<not> RootIsNull S)"
  "GoodParent (Some MemberNodeKind) S = (\<not> RootIsNull S)"
  "GoodParent (Some ImplicitCastNodeKind) S = (\<not> RootIsNull S)"
  by (simp_all add: GoodParent_def)

lemma strip_idem:
  "IgnoreValuePreservingOperations Lex (IgnoreParens (IgnoreValuePreservingOperations Lex E))
     = IgnoreValuePreservingOperations Lex E"
  by (induction Lex E rule: IgnoreValuePreservingOperations.induct) auto

lemma IVPO_IgnoreParens:
  "IgnoreValuePreservingOperations Lex (IgnoreParens E) = IgnoreValuePreservingOperations Lex E"
  by (induction E rule: IgnoreParens.induct) auto

lemma Create_unfold:
  assumes "Parent \<noteq> None"
  shows "Create Lex E0 Parent S =
     (let E = IgnoreValuePreservingOperations Lex (IgnoreParens E0) in
      (case E of
        BinaryOperator BinOp LHS RHS \<Rightarrow>
          (let Rewrite = (BinOp = BO_Sub \<and> isIntegerConstantExpr RHS \<noteq> None
                            \<and> \<not> EvaluateOverflows (UnaryOperator UO_Minus RHS));
               BinOp1 = (if Rewrite then BO_Add else BinOp);
               RHS1 = (if Rewrite then UnaryOperator UO_Minus RHS else RHS);
               S1 = AttachNode BinaryOperatorNodeKind Parent S;
               (L, S2) = Create Lex LHS (Some BinaryOperatorNodeKind) S1;
               (R, S3) = Create Lex RHS1 (Some BinaryOperatorNodeKind) S2
           in (BinaryOperatorNode BinOp1 [L, R], S3))
      | MemberExpr MBase FieldD IsArrow \<Rightarrow>
          (let Base = IgnoreValuePreservingOperations Lex (IgnoreParens MBase);
               ArrowBase =
                 (if IsArrow then Some Base
                  else (case Base of
                     UnaryOperator UOp USub \<Rightarrow> if UOp = UO_Deref then Some USub else None
                   | ArraySubscriptExpr ABase AIdx \<Rightarrow> Some (BinaryOperator BO_Add ABase AIdx)
                   | _ \<Rightarrow> None));
               S1 = AttachNode MemberNodeKind Parent S
           in (case ArrowBase of
                 Some AB \<Rightarrow>
                   (let (B, S2) = AddZero Lex AB (Some MemberNodeKind) S1
                    in (MemberNode FieldD True B, S2))
               | None \<Rightarrow>
                   (let (B, S2) = Create Lex Base (Some MemberNodeKind) S1
                    in (MemberNode FieldD False B, S2))))
      | UnaryOperator Op Sub \<Rightarrow>
          (if Op = UO_Deref then
             (let S1 = AttachNode UnaryOperatorNodeKind Parent S;
                  (C, S2) = AddZero Lex Sub (Some UnaryOperatorNodeKind) S1
              in (UnaryOperatorNode Op C, S2))
           else if (Op = UO_Plus \<or> Op = UO_Minus) \<and> isIntegerConstantExpr E \<noteq> None then
             (LeafExprNode E, AttachNode LeafExprNodeKind Parent S)
           else
             (let S1 = AttachNode UnaryOperatorNodeKind Parent S;
                  (C, S2) = Create Lex Sub (Some UnaryOperatorNodeKind) S1
              in (UnaryOperatorNode Op C, S2)))
      | ArraySubscriptExpr ABase AIdx \<Rightarrow>
          (let S1 = AttachNode UnaryOperatorNodeKind Parent S;
               (C, S2) = AddZero Lex (BinaryOperator BO_Add ABase AIdx) (Some UnaryOperatorNodeKind) S1
           in (UnaryOperatorNode UO_Deref C, S2))
      | ImplicitCastExpr CK Sub \<Rightarrow>
          (let S1 = AttachNode ImplicitCastNodeKind Parent S;
               (C, S2) = Create Lex Sub (Some ImplicitCastNodeKind) S1
           in (ImplicitCastNode CK C, S2))
      | _ \<Rightarrow> (LeafExprNode E, AttachNode LeafExprNodeKind Parent S)))"
proof (cases Parent)
  case None
  with assms show ?thesis by simp
next
  case (Some k)
  show ?thesis unfolding Some by (subst Create.simps) (simp add: Let_def)
qed

lemma Create_pure_aux:
  "(\<forall>Parent S. GoodParent Parent S \<longrightarrow>
       Create Lex E Parent S = (fst (Create Lex E (Some BinaryOperatorNodeKind) BuildState_attached), S))
   \<and> (\<forall>Parent S. GoodParent Parent S \<longrightarrow>
       AddZero Lex E Parent S = (fst (AddZero Lex E (Some BinaryOperatorNodeKind) BuildState_attached), S))"
proof (induction "ExprWeight E" arbitrary: E rule: less_induct)
  case less
  define X where "X = IgnoreValuePreservingOperations Lex (IgnoreParens E)"
  have wX: "ExprWeight X \<le> ExprWeight E" unfolding X_def by (rule ExprWeight_strip)
  have ihC: "Create Lex E' Parent S = (fst (Create Lex E' (Some BinaryOperatorNodeKind) BuildState_attached), S)"
    if "ExprWeight E' < ExprWeight E" "GoodParent Parent S" for E' Parent S
    using less [OF that(1)] that(2) by blast
  have ihA: "AddZero Lex E' Parent S = (fst (AddZero Lex E' (Some BinaryOperatorNodeKind) BuildState_attached), S)"
    if "ExprWeight E' < ExprWeight E" "GoodParent Parent S" for E' Parent S
    using less [OF that(1)] that(2) by blast
  have g0: "GoodParent (Some BinaryOperatorNodeKind) BuildState_attached"
    by (simp add: BuildState_attached_def)
  have ex: "\<exists>N. \<forall>Parent S. GoodParent Parent S \<longrightarrow> Create Lex E Parent S = (N, S)"
  proof (cases X)
    case (IntegerLiteral V)
    then show ?thesis
      by (intro exI [of _ "LeafExprNode X"]) (auto simp: Create_unfold GoodParent_def X_def [symmetric] AttachNode_def)
  next
    case (DeclRefExpr D)
    then show ?thesis
      by (intro exI [of _ "LeafExprNode X"]) (auto simp: Create_unfold GoodParent_def X_def [symmetric] AttachNode_def)
  next
    case (OpaqueExpr n)
    then show ?thesis
      by (intro exI [of _ "LeafExprNode X"]) (auto simp: Create_unfold GoodParent_def X_def [symmetric] AttachNode_def)
  next
    case (ParenExpr P)
    then show ?thesis
      by (intro exI [of _ "LeafExprNode X"]) (auto simp: Create_unfold GoodParent_def X_def [symmetric] AttachNode_def)
  next
    case (BinaryOperator BinOp LHS RHS)
    have w1: "ExprWeight LHS < ExprWeight E" using wX BinaryOperator by simp
    have w2: "ExprWeight RHS < ExprWeight E" using wX BinaryOperator by simp
    have w3: "ExprWeight (UnaryOperator UO_Minus RHS) < ExprWeight E" using wX BinaryOperator by simp
    show ?thesis
    proof (intro exI allI impI)
      fix Parent S assume g: "GoodParent Parent S"
      then have pn: "Parent \<noteq> None" and gb: "GoodParent (Some BinaryOperatorNodeKind) S"
        by (simp_all add: GoodParent_def)
      show "Create Lex E Parent S =
              (if BinOp = BO_Sub \<and> isIntegerConstantExpr RHS \<noteq> None
                    \<and> \<not> EvaluateOverflows (UnaryOperator UO_Minus RHS)
               then BinaryOperatorNode BO_Add
                   [fst (Create Lex LHS (Some BinaryOperatorNodeKind) BuildState_attached),
                    fst (Create Lex (UnaryOperator UO_Minus RHS) (Some BinaryOperatorNodeKind) BuildState_attached)]
               else BinaryOperatorNode BinOp
                   [fst (Create Lex LHS (Some BinaryOperatorNodeKind) BuildState_attached),
                    fst (Create Lex RHS (Some BinaryOperatorNodeKind) BuildState_attached)], S)"
        by (auto simp add: Create_unfold [OF pn] X_def [symmetric] BinaryOperator Let_def
              AttachNode_good [OF g] ihC [OF w1 gb] ihC [OF w2 gb] ihC [OF w3 gb])
    qed
  next
    case (UnaryOperator Op Sub)
    have w1: "ExprWeight Sub < ExprWeight E" using wX UnaryOperator by simp
    show ?thesis
    proof (intro exI allI impI)
      fix Parent S assume g: "GoodParent Parent S"
      then have pn: "Parent \<noteq> None" and gb: "GoodParent (Some UnaryOperatorNodeKind) S"
        by (simp_all add: GoodParent_def)
      show "Create Lex E Parent S =
              (if Op = UO_Deref
               then UnaryOperatorNode Op (fst (AddZero Lex Sub (Some BinaryOperatorNodeKind) BuildState_attached))
               else if (Op = UO_Plus \<or> Op = UO_Minus) \<and> isIntegerConstantExpr X \<noteq> None
               then LeafExprNode X
               else UnaryOperatorNode Op (fst (Create Lex Sub (Some BinaryOperatorNodeKind) BuildState_attached)), S)"
        by (simp add: Create_unfold [OF pn] X_def [symmetric] UnaryOperator Let_def
              AttachNode_good [OF g] ihC [OF w1 gb] ihA [OF w1 gb])
    qed
  next
    case (ImplicitCastExpr CK Sub)
    have w1: "ExprWeight Sub < ExprWeight E" using wX ImplicitCastExpr by simp
    show ?thesis
    proof (intro exI allI impI)
      fix Parent S assume g: "GoodParent Parent S"
      then have pn: "Parent \<noteq> None" and gb: "GoodParent (Some ImplicitCastNodeKind) S"
        by (simp_all add: GoodParent_def)
      show "Create Lex E Parent S =
              (ImplicitCastNode CK (fst (Create Lex Sub (Some BinaryOperatorNodeKind) BuildState_attached)), S)"
        by (simp add: Create_unfold [OF pn] X_def [symmetric] ImplicitCastExpr Let_def
              AttachNode_good [OF g] ihC [OF w1 gb])
    qed
  next
    case (ArraySubscriptExpr ABase AIdx)
    have w1: "ExprWeight (BinaryOperator BO_Add ABase AIdx) < ExprWeight E"
      using wX ArraySubscriptExpr by simp
    show ?thesis
    proof (intro exI allI impI)
      fix Parent S assume g: "GoodParent Parent S"
      then have pn: "Parent \<noteq> None" and gb: "GoodParent (Some UnaryOperatorNodeKind) S"
        by (simp_all add: GoodParent_def)
      show "Create Lex E Parent S =
              (UnaryOperatorNode UO_Deref
                 (fst (AddZero Lex (BinaryOperator BO_Add ABase AIdx) (Some BinaryOperatorNodeKind) BuildState_attached)), S)"
        by (simp add: Create_unfold [OF pn] X_def [symmetric] ArraySubscriptExpr Let_def
              AttachNode_good [OF g] ihA [OF w1 gb])
    qed
  next
    case (MemberExpr MBase FieldD IsArrow)
    define Base where "Base = IgnoreValuePreservingOperations Lex (IgnoreParens MBase)"
    define ArrowBase where "ArrowBase =
                 (if IsArrow then Some Base
                  else (case Base of
                     UnaryOperator UOp USub \<Rightarrow> if UOp = UO_Deref then Some USub else None
                   | ArraySubscriptExpr ABase AIdx \<Rightarrow> Some (BinaryOperator BO_Add ABase AIdx)
                   | _ \<Rightarrow> None))"
    have wB: "ExprWeight Base < ExprWeight E"
      using wX MemberExpr ExprWeight_strip [of Lex MBase] by (simp add: Base_def)
    have wA: "ExprWeight AB < ExprWeight E" if "ArrowBase = Some AB" for AB
      using that wB by (auto simp: ArrowBase_def split: if_splits Expr.splits)
    show ?thesis
    proof (cases ArrowBase)
      case None
      show ?thesis
      proof (intro exI allI impI)
        fix Parent S assume g: "GoodParent Parent S"
        then have pn: "Parent \<noteq> None" and gb: "GoodParent (Some MemberNodeKind) S"
          by (simp_all add: GoodParent_def)
        show "Create Lex E Parent S =
                (MemberNode FieldD False (fst (Create Lex Base (Some BinaryOperatorNodeKind) BuildState_attached)), S)"
          using None
          by (simp add: Create_unfold [OF pn] X_def [symmetric] MemberExpr Let_def
                Base_def [symmetric] ArrowBase_def [symmetric]
                AttachNode_good [OF g] ihC [OF wB gb])
      qed
    next
      case (Some AB)
      show ?thesis
      proof (intro exI allI impI)
        fix Parent S assume g: "GoodParent Parent S"
        then have pn: "Parent \<noteq> None" and gb: "GoodParent (Some MemberNodeKind) S"
          by (simp_all add: GoodParent_def)
        show "Create Lex E Parent S =
                (MemberNode FieldD True (fst (AddZero Lex AB (Some BinaryOperatorNodeKind) BuildState_attached)), S)"
          using Some
          by (simp add: Create_unfold [OF pn] X_def [symmetric] MemberExpr Let_def
                Base_def [symmetric] ArrowBase_def [symmetric]
                AttachNode_good [OF g] ihA [OF wA [OF Some] gb])
      qed
    qed
  qed
  then obtain N where N: "\<And>Parent S. GoodParent Parent S \<Longrightarrow> Create Lex E Parent S = (N, S)"
    by blast
  have C: "Create Lex E Parent S = (fst (Create Lex E (Some BinaryOperatorNodeKind) BuildState_attached), S)"
    if g: "GoodParent Parent S" for Parent S
    using N [OF g] N [OF g0] by simp
  have A: "AddZero Lex E Parent S = (fst (AddZero Lex E (Some BinaryOperatorNodeKind) BuildState_attached), S)"
    if g: "GoodParent Parent S" for Parent S
  proof -
    from g have gb: "GoodParent (Some BinaryOperatorNodeKind) S" by (simp add: GoodParent_def)
    have 1: "AddZero Lex E Parent S =
          (BinaryOperatorNode BO_Add [LeafExprNode (IntegerLiteral 0), N], S)"
      by (simp add: AddZero.simps Let_def AttachNode_good [OF g] AttachNode_good [OF gb] N [OF gb])
    have 2: "AddZero Lex E (Some BinaryOperatorNodeKind) BuildState_attached =
          (BinaryOperatorNode BO_Add [LeafExprNode (IntegerLiteral 0), N], BuildState_attached)"
      by (simp add: AddZero.simps Let_def AttachNode_good [OF g0] N [OF g0])
    show ?thesis using 1 2 by simp
  qed
  from C A show ?case by blast
qed

lemma Create_good:
  "GoodParent Parent S \<Longrightarrow> Create Lex E Parent S = (CreateNode Lex E, S)"
  using Create_pure_aux [of Lex E] by (simp add: CreateNode_def)

lemma strip_strip:
  "IgnoreValuePreservingOperations Lex (IgnoreParens (IgnoreValuePreservingOperations Lex (IgnoreParens E)))
     = IgnoreValuePreservingOperations Lex (IgnoreParens E)"
  using strip_idem [of Lex E] by (simp add: IVPO_IgnoreParens)

lemma Create_strip:
  "Parent \<noteq> None \<Longrightarrow>
     Create Lex (IgnoreValuePreservingOperations Lex (IgnoreParens E)) Parent S = Create Lex E Parent S"
  by (simp add: Create_unfold strip_strip)

lemma CreateNode_strip:
  "CreateNode Lex (IgnoreValuePreservingOperations Lex (IgnoreParens E)) = CreateNode Lex E"
  by (simp add: CreateNode_def Create_strip)

lemma CreateNode_ParenExpr [simp]: "CreateNode Lex (ParenExpr E) = CreateNode Lex E"
  using CreateNode_strip [of Lex "ParenExpr E"] CreateNode_strip [of Lex E] by simp

lemma RootIsNull_attached [simp]: "\<not> RootIsNull BuildState_attached"
  by (simp add: BuildState_attached_def)

lemma CreateNode_BinaryOperator:
  "CreateNode Lex (BinaryOperator BinOp LHS RHS) =
     (if BinOp = BO_Sub \<and> isIntegerConstantExpr RHS \<noteq> None
           \<and> \<not> EvaluateOverflows (UnaryOperator UO_Minus RHS)
      then BinaryOperatorNode BO_Add [CreateNode Lex LHS, CreateNode Lex (UnaryOperator UO_Minus RHS)]
      else BinaryOperatorNode BinOp [CreateNode Lex LHS, CreateNode Lex RHS])"
  unfolding CreateNode_def [of Lex "BinaryOperator BinOp LHS RHS"]
  by (subst Create_unfold) (auto simp add: Let_def Create_good)

lemma CreateNode_DeclRefExpr [simp]: "CreateNode Lex (DeclRefExpr D) = LeafExprNode (DeclRefExpr D)"
  unfolding CreateNode_def by (subst Create_unfold) (simp_all add: Let_def)

lemma CreateNode_IntegerLiteral [simp]: "CreateNode Lex (IntegerLiteral V) = LeafExprNode (IntegerLiteral V)"
  unfolding CreateNode_def by (subst Create_unfold) (simp_all add: Let_def)

lemma PreorderAST_new_eq:
  "PreorderAST_new Lex E =
     \<lparr>Root = BinaryOperatorNode BO_Add [LeafExprNode (IntegerLiteral 0), CreateNode Lex E],
      Error = False\<rparr>"
proof -
  define S1 where "S1 = \<lparr>RootIsNull = False, BuildError = False\<rparr>"
  have a: "AttachNode BinaryOperatorNodeKind None \<lparr>RootIsNull = True, BuildError = False\<rparr> = S1"
    by (simp add: AttachNode_def S1_def)
  have g: "GoodParent (Some BinaryOperatorNodeKind) S1" by (simp add: S1_def)
  have "Create Lex E None \<lparr>RootIsNull = True, BuildError = False\<rparr> =
        (BinaryOperatorNode BO_Add [LeafExprNode (IntegerLiteral 0), CreateNode Lex E], S1)"
    by (subst Create.simps)
       (simp add: Let_def AddZero.simps a AttachNode_good [OF g] Create_good [OF g] CreateNode_strip)
  then show ?thesis by (simp add: PreorderAST_new_def S1_def)
qed

section \<open>The example comparator is a linear order\<close>

lemma CompareKeys_Equal: "(CompareKeys a b = Equal) = (a = b)"
  by (auto simp: CompareKeys_def)

lemma CompareKeys_LessThan: "(CompareKeys a b = LessThan) = (a < b)"
  by (auto simp: CompareKeys_def)

lemma ExprKey_prefix:
  "ExprKey a @ r = ExprKey b @ s \<Longrightarrow> a = b \<and> r = s"
proof (induction a arbitrary: b r s)
  case (IntegerLiteral V)
  then show ?case by (cases b) (auto dest: signed_word_eqI)
next
  case (DeclRefExpr D)
  then show ?case by (cases b) auto
next
  case (BinaryOperator Op L R)
  show ?case
  proof (cases b)
    case (BinaryOperator Op' L' R')
    with BinaryOperator.prems
    have o: "Op = Op'" and e: "ExprKey L @ (ExprKey R @ r) = ExprKey L' @ (ExprKey R' @ s)"
      by (auto simp: BinaryOperatorKind_code_inj)
    from BinaryOperator.IH(1) [OF e] have l: "L = L'" and e2: "ExprKey R @ r = ExprKey R' @ s"
      by auto
    from BinaryOperator.IH(2) [OF e2] o l BinaryOperator show ?thesis by simp
  qed (use BinaryOperator.prems in auto)
next
  case (UnaryOperator Op E)
  show ?case
  proof (cases b)
    case (UnaryOperator Op' E')
    with UnaryOperator.prems
    have o: "Op = Op'" and e: "ExprKey E @ r = ExprKey E' @ s"
      by (auto simp: UnaryOperatorKind_code_inj)
    from UnaryOperator.IH [OF e] o UnaryOperator show ?thesis by simp
  qed (use UnaryOperator.prems in auto)
next
  case (MemberExpr E F A)
  show ?case
  proof (cases b)
    case (MemberExpr E' F' A')
    with MemberExpr.prems
    have o: "F = F'" "A = A'" and e: "ExprKey E @ r = ExprKey E' @ s"
      by (auto split: if_splits)
    from MemberExpr.IH [OF e] o MemberExpr show ?thesis by simp
  qed (use MemberExpr.prems in auto)
next
  case (ArraySubscriptExpr B I)
  show ?case
  proof (cases b)
    case (ArraySubscriptExpr B' I')
    with ArraySubscriptExpr.prems
    have e: "ExprKey B @ (ExprKey I @ r) = ExprKey B' @ (ExprKey I' @ s)"
      by auto
    from ArraySubscriptExpr.IH(1) [OF e] have l: "B = B'" and e2: "ExprKey I @ r = ExprKey I' @ s"
      by auto
    from ArraySubscriptExpr.IH(2) [OF e2] l ArraySubscriptExpr show ?thesis by simp
  qed (use ArraySubscriptExpr.prems in auto)
next
  case (ImplicitCastExpr CK E)
  show ?case
  proof (cases b)
    case (ImplicitCastExpr CK' E')
    with ImplicitCastExpr.prems
    have o: "CK = CK'" and e: "ExprKey E @ r = ExprKey E' @ s"
      by auto
    from ImplicitCastExpr.IH [OF e] o ImplicitCastExpr show ?thesis by simp
  qed (use ImplicitCastExpr.prems in auto)
next
  case (ParenExpr E)
  show ?case
  proof (cases b)
    case (ParenExpr E')
    with ParenExpr.prems have e: "ExprKey E @ r = ExprKey E' @ s" by auto
    from ParenExpr.IH [OF e] ParenExpr show ?thesis by simp
  qed (use ParenExpr.prems in auto)
next
  case (OpaqueExpr n)
  then show ?case by (cases b) auto
qed

lemma ExprKey_inj: "ExprKey a = ExprKey b \<Longrightarrow> a = b"
  using ExprKey_prefix [of a "[]" b "[]"] by simp

lemma StdLex_simps [simp]:
  "CompareExpr StdLex a b = CompareKeys (ExprKey a) (ExprKey b)"
  "CompareDecl StdLex = CompareInteger"
  "IsValuePreserving StdLex CK = (CK = 0)"
  by (simp_all add: StdLex_def)

lemma StdLex_Antisym: "LexAntisym StdLex"
  unfolding LexAntisym_def by (simp add: CompareKeys_def CompareInteger_def not_less less_imp_le)

lemma StdLex_Trans: "LexTrans StdLex"
  unfolding LexTrans_def by (auto simp: CompareKeys_LessThan CompareInteger_LessThan)

lemma StdLex_EqIdent: "LexEqIdent StdLex"
  unfolding LexEqIdent_def by (auto simp: CompareKeys_Equal CompareInteger_Equal ExprKey_inj)

lemma StdLex_EqCongr: "LexEqCongr StdLex"
  by (rule LexEqIdent_EqCongr [OF StdLex_EqIdent])

lemma StdLex_LexOrder: "LexOrder StdLex"
  by (simp add: LexOrder_def StdLex_Antisym StdLex_Trans StdLex_EqCongr)

lemma StdLex_LexLinearOrder2: "LexLinearOrder2 StdLex"
  by (simp add: LexLinearOrder2_def StdLex_Antisym StdLex_Trans StdLex_EqIdent)

section \<open>The root keeps its operator\<close>

declare NormalizeLoop.simps [simp del]

lemma Coalesce_None_root:
  "\<exists>Cs'. fst (Coalesce None Err (BinaryOperatorNode Opc Cs)) = Stays (BinaryOperatorNode Opc Cs')"
  by (simp split: prod.splits)

lemma Sort_root: "\<exists>Cs'. Sort Lex (BinaryOperatorNode Opc Cs) = BinaryOperatorNode Opc Cs'"
  by simp

lemma ConstantFold_None_root:
  "\<exists>Cs'. fst (ConstantFold None Err (BinaryOperatorNode Opc Cs)) = Stays (BinaryOperatorNode Opc Cs')"
  by (simp add: Let_def)

lemma NormalizeLoop_root_aux:
  "\<forall>Cs. Root0 = BinaryOperatorNode Opc Cs \<longrightarrow>
     (\<exists>Cs'. fst (NormalizeLoop Lex Root0 Err) = BinaryOperatorNode Opc Cs')"
proof (induction Lex Root0 Err rule: NormalizeLoop.induct)
  case (1 Lex Root0 Err)
  show ?case
  proof (intro allI impI)
    fix Cs assume R: "Root0 = BinaryOperatorNode Opc Cs"
    obtain P1 Changed1 where c: "Coalesce None Err Root0 = (P1, Changed1)"
      by (cases "Coalesce None Err Root0")
    from Coalesce_None_root [of Err Opc Cs] c R obtain Cs1 where
      P1: "P1 = Stays (BinaryOperatorNode Opc Cs1)" by auto
    obtain Cs2 where S: "Sort Lex (BinaryOperatorNode Opc Cs1) = BinaryOperatorNode Opc Cs2"
      using Sort_root by blast
    obtain P3 Changed3 Err3 where
      f: "ConstantFold None Err (BinaryOperatorNode Opc Cs2) = (P3, Changed3, Err3)"
      by (cases "ConstantFold None Err (BinaryOperatorNode Opc Cs2)")
    from ConstantFold_None_root [of Err Opc Cs2] f obtain Cs3 where
      P3: "P3 = Stays (BinaryOperatorNode Opc Cs3)" by auto
    have f': "ConstantFold None Err (Sort Lex (PlacedNode P1 Root0)) = (P3, Changed3, Err3)"
      using f P1 S by simp
    show "\<exists>Cs'. fst (NormalizeLoop Lex Root0 Err) = BinaryOperatorNode Opc Cs'"
    proof (cases "\<not> Err \<and> \<not> Err3 \<and> (Changed1 \<or> Changed3)")
      case True
      then have "NormalizeLoop Lex Root0 Err =
                 NormalizeLoop Lex (BinaryOperatorNode Opc Cs3) Err3"
        unfolding NormalizeLoop.simps [of Lex Root0 Err] using c f' P1 P3 S by simp
      moreover have "\<exists>Cs'. fst (NormalizeLoop Lex (PlacedNode P3 (Sort Lex (PlacedNode P1 Root0))) Err3)
                       = BinaryOperatorNode Opc Cs'"
        using "1.IH" [OF c [symmetric] _ f' [symmetric] refl] True P1 P3 S by auto
      ultimately show ?thesis using P1 P3 S by simp
    next
      case False
      then show ?thesis
        unfolding NormalizeLoop.simps [of Lex Root0 Err] using c f' P1 P3 S by auto
    qed
  qed
qed

lemma NormalizeLoop_root:
  "\<exists>Cs'. fst (NormalizeLoop Lex (BinaryOperatorNode Opc Cs) Err) = BinaryOperatorNode Opc Cs'"
  using NormalizeLoop_root_aux by blast

section \<open>Folding the constants of \<^verbatim>\<open>x + c1 + c2\<close>\<close>

lemma sadd_ov_eq: "sadd_ov a b = (a + b, AddOverflows a b)"
  by (simp add: sadd_ov_def AddOverflows_def)

lemma AddOverflows_zero [simp]: "AddOverflows 0 a = False" "AddOverflows a 0 = False"
  by (simp_all add: sadd_ov_def AddOverflows_def)

lemma AddOverflows_commute: "AddOverflows a b = AddOverflows b a"
  by (simp add: sadd_ov_def AddOverflows_def add.commute)

lemma Compare_Leaf [simp]:
  "Compare Lex (LeafExprNode E1) (LeafExprNode E2) = CompareExpr Lex E1 E2"
  by (simp add: CompareKinds_def CompareInteger_def)

lemma isIntegerConstantExpr_simps [simp]:
  "isIntegerConstantExpr (DeclRefExpr D) = None"
  "isIntegerConstantExpr (IntegerLiteral V) = Some V"
  by (simp_all add: isIntegerConstantExpr_def)

lemma fold_var_first:
  "ConstantFold None False
     (BinaryOperatorNode BO_Add
        [LeafExprNode (DeclRefExpr D), LeafExprNode (IntegerLiteral a),
         LeafExprNode (IntegerLiteral b), LeafExprNode (IntegerLiteral c)]) =
   (if AddOverflows a b \<or> AddOverflows (a + b) c
    then (Stays (BinaryOperatorNode BO_Add
            [LeafExprNode (DeclRefExpr D), LeafExprNode (IntegerLiteral a),
             LeafExprNode (IntegerLiteral b), LeafExprNode (IntegerLiteral c)]), False, True)
    else (Stays (BinaryOperatorNode BO_Add
            [LeafExprNode (DeclRefExpr D), LeafExprNode (IntegerLiteral (a + b + c))]), True, False))"
  by (simp add: FoldLeaf_def FoldState_init_def Let_def IsOpCommutativeAndAssociative_def sadd_ov_eq)

lemma fold_var_last:
  "ConstantFold None False
     (BinaryOperatorNode BO_Add
        [LeafExprNode (IntegerLiteral a), LeafExprNode (IntegerLiteral b),
         LeafExprNode (IntegerLiteral c), LeafExprNode (DeclRefExpr D)]) =
   (if AddOverflows a b \<or> AddOverflows (a + b) c
    then (Stays (BinaryOperatorNode BO_Add
            [LeafExprNode (IntegerLiteral a), LeafExprNode (IntegerLiteral b),
             LeafExprNode (IntegerLiteral c), LeafExprNode (DeclRefExpr D)]), False, True)
    else (Stays (BinaryOperatorNode BO_Add
            [LeafExprNode (DeclRefExpr D), LeafExprNode (IntegerLiteral (a + b + c))]), True, False))"
  by (simp add: FoldLeaf_def FoldState_init_def Let_def IsOpCommutativeAndAssociative_def sadd_ov_eq)

lemma sort_three_literals:
  "\<exists>a b c. llvm_sort Lex [LeafExprNode (IntegerLiteral u), LeafExprNode (IntegerLiteral v),
                            LeafExprNode (IntegerLiteral w)] =
             [LeafExprNode (IntegerLiteral a), LeafExprNode (IntegerLiteral b),
              LeafExprNode (IntegerLiteral c)] \<and> IsPerm3 u v w a b c"
  by (simp add: llvm_sort_def IsPerm3_def CompareKinds_def CompareInteger_def)

lemma sum_IsPerm3:
  "IsPerm3 0 v w a b c \<Longrightarrow>
     a + b + c = v + w \<and> (AddOverflows a b \<or> AddOverflows (a + b) c) = AddOverflows v w"
  unfolding IsPerm3_def using AddOverflows_commute [of v w] by auto

lemma sort_var_first:
  assumes "\<forall>V. CompareExpr Lex X (IntegerLiteral V) = LessThan
              \<and> CompareExpr Lex (IntegerLiteral V) X \<noteq> LessThan"
  shows "llvm_sort Lex [LeafExprNode (IntegerLiteral u), LeafExprNode (IntegerLiteral v),
                        LeafExprNode X, LeafExprNode (IntegerLiteral w)] =
         LeafExprNode X # llvm_sort Lex [LeafExprNode (IntegerLiteral u),
                          LeafExprNode (IntegerLiteral v), LeafExprNode (IntegerLiteral w)]"
    and "llvm_sort Lex [LeafExprNode (IntegerLiteral u), LeafExprNode X,
                        LeafExprNode (IntegerLiteral v), LeafExprNode (IntegerLiteral w)] =
         LeafExprNode X # llvm_sort Lex [LeafExprNode (IntegerLiteral u),
                          LeafExprNode (IntegerLiteral v), LeafExprNode (IntegerLiteral w)]"
    and "llvm_sort Lex [LeafExprNode (IntegerLiteral u), LeafExprNode X,
                        LeafExprNode (IntegerLiteral v)] =
         LeafExprNode X # llvm_sort Lex [LeafExprNode (IntegerLiteral u),
                          LeafExprNode (IntegerLiteral v)]"
    and "llvm_sort Lex [LeafExprNode X, LeafExprNode (IntegerLiteral v)] =
         [LeafExprNode X, LeafExprNode (IntegerLiteral v)]"
  using assms by (simp_all add: llvm_sort_def CompareKinds_def CompareInteger_def)

lemma sort_var_last:
  assumes "\<forall>V. CompareExpr Lex (IntegerLiteral V) X = LessThan
              \<and> CompareExpr Lex X (IntegerLiteral V) \<noteq> LessThan"
  shows "llvm_sort Lex [LeafExprNode (IntegerLiteral u), LeafExprNode (IntegerLiteral v),
                        LeafExprNode X, LeafExprNode (IntegerLiteral w)] =
         llvm_sort Lex [LeafExprNode (IntegerLiteral u),
                        LeafExprNode (IntegerLiteral v), LeafExprNode (IntegerLiteral w)]
           @ [LeafExprNode X]"
    and "llvm_sort Lex [LeafExprNode (IntegerLiteral u), LeafExprNode X,
                        LeafExprNode (IntegerLiteral v), LeafExprNode (IntegerLiteral w)] =
         llvm_sort Lex [LeafExprNode (IntegerLiteral u),
                        LeafExprNode (IntegerLiteral v), LeafExprNode (IntegerLiteral w)]
           @ [LeafExprNode X]"
    and "llvm_sort Lex [LeafExprNode (IntegerLiteral u), LeafExprNode X,
                        LeafExprNode (IntegerLiteral v)] =
         llvm_sort Lex [LeafExprNode (IntegerLiteral u), LeafExprNode (IntegerLiteral v)]
           @ [LeafExprNode X]"
    and "llvm_sort Lex [LeafExprNode X, LeafExprNode (IntegerLiteral v)] =
         [LeafExprNode (IntegerLiteral v), LeafExprNode X]"
  using assms by (simp_all add: llvm_sort_def CompareKinds_def CompareInteger_def)

lemma fold_var_first_two:
  "ConstantFold None False
     (BinaryOperatorNode BO_Add
        [LeafExprNode (DeclRefExpr D), LeafExprNode (IntegerLiteral a),
         LeafExprNode (IntegerLiteral b)]) =
   (if AddOverflows a b
    then (Stays (BinaryOperatorNode BO_Add
            [LeafExprNode (DeclRefExpr D), LeafExprNode (IntegerLiteral a),
             LeafExprNode (IntegerLiteral b)]), False, True)
    else (Stays (BinaryOperatorNode BO_Add
            [LeafExprNode (DeclRefExpr D), LeafExprNode (IntegerLiteral (a + b))]), True, False))"
  by (simp add: FoldLeaf_def FoldState_init_def Let_def IsOpCommutativeAndAssociative_def sadd_ov_eq)

lemma fold_var_last_two:
  "ConstantFold None False
     (BinaryOperatorNode BO_Add
        [LeafExprNode (IntegerLiteral a), LeafExprNode (IntegerLiteral b),
         LeafExprNode (DeclRefExpr D)]) =
   (if AddOverflows a b
    then (Stays (BinaryOperatorNode BO_Add
            [LeafExprNode (IntegerLiteral a), LeafExprNode (IntegerLiteral b),
             LeafExprNode (DeclRefExpr D)]), False, True)
    else (Stays (BinaryOperatorNode BO_Add
            [LeafExprNode (DeclRefExpr D), LeafExprNode (IntegerLiteral (a + b))]), True, False))"
  by (simp add: FoldLeaf_def FoldState_init_def Let_def IsOpCommutativeAndAssociative_def sadd_ov_eq)

lemma fold_one_literal:
  "ConstantFold None False
     (BinaryOperatorNode BO_Add [LeafExprNode (DeclRefExpr D), LeafExprNode (IntegerLiteral a)]) =
   (Stays (BinaryOperatorNode BO_Add
      [LeafExprNode (DeclRefExpr D), LeafExprNode (IntegerLiteral a)]), False, False)"
  "ConstantFold None False
     (BinaryOperatorNode BO_Add [LeafExprNode (IntegerLiteral a), LeafExprNode (DeclRefExpr D)]) =
   (Stays (BinaryOperatorNode BO_Add
      [LeafExprNode (IntegerLiteral a), LeafExprNode (DeclRefExpr D)]), False, False)"
  by (simp_all add: FoldLeaf_def FoldState_init_def Let_def IsOpCommutativeAndAssociative_def)

lemma sort_two_literals:
  "llvm_sort Lex [LeafExprNode (IntegerLiteral 0), LeafExprNode (IntegerLiteral v)] =
     [LeafExprNode (IntegerLiteral 0), LeafExprNode (IntegerLiteral v)]
   \<or> llvm_sort Lex [LeafExprNode (IntegerLiteral 0), LeafExprNode (IntegerLiteral v)] =
     [LeafExprNode (IntegerLiteral v), LeafExprNode (IntegerLiteral 0)]"
  by (simp add: llvm_sort_def CompareKinds_def CompareInteger_def)

lemma fold_sorted_four:
  assumes va: "VarApartFromLiterals Lex (DeclRefExpr D)"
    and L: "L = [LeafExprNode (IntegerLiteral 0), LeafExprNode (IntegerLiteral v),
                 LeafExprNode (DeclRefExpr D), LeafExprNode (IntegerLiteral w)]
            \<or> L = [LeafExprNode (IntegerLiteral 0), LeafExprNode (DeclRefExpr D),
                    LeafExprNode (IntegerLiteral v), LeafExprNode (IntegerLiteral w)]"
  shows "ConstantFold None False (BinaryOperatorNode BO_Add (llvm_sort Lex L)) =
     (if AddOverflows v w
      then (Stays (BinaryOperatorNode BO_Add (llvm_sort Lex L)), False, True)
      else (Stays (BinaryOperatorNode BO_Add
              [LeafExprNode (DeclRefExpr D), LeafExprNode (IntegerLiteral (v + w))]), True, False))"
proof -
  obtain a b c where
    s: "llvm_sort Lex [LeafExprNode (IntegerLiteral 0), LeafExprNode (IntegerLiteral v),
                       LeafExprNode (IntegerLiteral w)] =
        [LeafExprNode (IntegerLiteral a), LeafExprNode (IntegerLiteral b),
         LeafExprNode (IntegerLiteral c)]"
    and p: "IsPerm3 0 v w a b c"
    using sort_three_literals by blast
  note sm = sum_IsPerm3 [OF p]
  from va consider
    (first) "\<forall>V. CompareExpr Lex (DeclRefExpr D) (IntegerLiteral V) = LessThan
              \<and> CompareExpr Lex (IntegerLiteral V) (DeclRefExpr D) \<noteq> LessThan"
  | (last) "\<forall>V. CompareExpr Lex (IntegerLiteral V) (DeclRefExpr D) = LessThan
              \<and> CompareExpr Lex (DeclRefExpr D) (IntegerLiteral V) \<noteq> LessThan"
    unfolding VarApartFromLiterals_def by blast
  then show ?thesis
  proof cases
    case first
    have "llvm_sort Lex L =
          [LeafExprNode (DeclRefExpr D), LeafExprNode (IntegerLiteral a),
           LeafExprNode (IntegerLiteral b), LeafExprNode (IntegerLiteral c)]"
      using L sort_var_first(1,2) [OF first, of 0 v w] s by auto
    then show ?thesis using sm by (simp add: fold_var_first del: ConstantFold.simps)
  next
    case last
    have "llvm_sort Lex L =
          [LeafExprNode (IntegerLiteral a), LeafExprNode (IntegerLiteral b),
           LeafExprNode (IntegerLiteral c), LeafExprNode (DeclRefExpr D)]"
      using L sort_var_last(1,2) [OF last, of 0 v w] s by auto
    then show ?thesis using sm by (simp add: fold_var_last del: ConstantFold.simps)
  qed
qed

lemma fold_sorted_three:
  assumes va: "VarApartFromLiterals Lex (DeclRefExpr D)"
  shows "ConstantFold None False (BinaryOperatorNode BO_Add
           (llvm_sort Lex [LeafExprNode (IntegerLiteral 0), LeafExprNode (DeclRefExpr D),
                           LeafExprNode (IntegerLiteral v)])) =
     (Stays (BinaryOperatorNode BO_Add
        [LeafExprNode (DeclRefExpr D), LeafExprNode (IntegerLiteral v)]), True, False)"
proof -
  from va consider
    (first) "\<forall>V. CompareExpr Lex (DeclRefExpr D) (IntegerLiteral V) = LessThan
              \<and> CompareExpr Lex (IntegerLiteral V) (DeclRefExpr D) \<noteq> LessThan"
  | (last) "\<forall>V. CompareExpr Lex (IntegerLiteral V) (DeclRefExpr D) = LessThan
              \<and> CompareExpr Lex (DeclRefExpr D) (IntegerLiteral V) \<noteq> LessThan"
    unfolding VarApartFromLiterals_def by blast
  then show ?thesis
  proof cases
    case first
    show ?thesis
      using sort_two_literals [of Lex v]
      by (auto simp add: sort_var_first(3) [OF first] fold_var_first_two simp del: ConstantFold.simps)
  next
    case last
    show ?thesis
      using sort_two_literals [of Lex v]
      by (auto simp add: sort_var_last(3) [OF last] fold_var_last_two simp del: ConstantFold.simps)
  qed
qed

lemma fold_sorted_two:
  assumes va: "VarApartFromLiterals Lex (DeclRefExpr D)"
  shows "ConstantFold None False (BinaryOperatorNode BO_Add
           (llvm_sort Lex [LeafExprNode (DeclRefExpr D), LeafExprNode (IntegerLiteral v)])) =
     (Stays (BinaryOperatorNode BO_Add
        (llvm_sort Lex [LeafExprNode (DeclRefExpr D), LeafExprNode (IntegerLiteral v)])), False, False)"
proof -
  from va consider
    (first) "\<forall>V. CompareExpr Lex (DeclRefExpr D) (IntegerLiteral V) = LessThan
              \<and> CompareExpr Lex (IntegerLiteral V) (DeclRefExpr D) \<noteq> LessThan"
  | (last) "\<forall>V. CompareExpr Lex (IntegerLiteral V) (DeclRefExpr D) = LessThan
              \<and> CompareExpr Lex (DeclRefExpr D) (IntegerLiteral V) \<noteq> LessThan"
    unfolding VarApartFromLiterals_def by blast
  then show ?thesis
  proof cases
    case first
    show ?thesis
      by (simp add: sort_var_first(4) [OF first] fold_one_literal del: ConstantFold.simps)
  next
    case last
    show ?thesis
      by (simp add: sort_var_last(4) [OF last] fold_one_literal del: ConstantFold.simps)
  qed
qed

lemma NormalizeLoop_var_literal:
  assumes va: "VarApartFromLiterals Lex (DeclRefExpr D)"
  shows "NormalizeLoop Lex (BinaryOperatorNode BO_Add
           [LeafExprNode (DeclRefExpr D), LeafExprNode (IntegerLiteral v)]) False =
         (BinaryOperatorNode BO_Add
           (llvm_sort Lex [LeafExprNode (DeclRefExpr D), LeafExprNode (IntegerLiteral v)]), False)"
  unfolding NormalizeLoop.simps [of Lex "BinaryOperatorNode BO_Add
           [LeafExprNode (DeclRefExpr D), LeafExprNode (IntegerLiteral v)]" False]
  by (simp add: IsOpCommutativeAndAssociative_def CoalesceChildren.simps fold_sorted_two [OF va]
           del: ConstantFold.simps)

lemma NormalizeLoop_var_two_literals:
  assumes va: "VarApartFromLiterals Lex (DeclRefExpr D)"
  shows "NormalizeLoop Lex (BinaryOperatorNode BO_Add
           [LeafExprNode (IntegerLiteral 0),
            BinaryOperatorNode BO_Add
              [BinaryOperatorNode BO_Add
                 [LeafExprNode (DeclRefExpr D), LeafExprNode (IntegerLiteral c1)],
               LeafExprNode (IntegerLiteral c2)]]) False =
         (if AddOverflows c1 c2
          then (BinaryOperatorNode BO_Add
                  (llvm_sort Lex [LeafExprNode (IntegerLiteral 0), LeafExprNode (IntegerLiteral c2),
                                  LeafExprNode (DeclRefExpr D), LeafExprNode (IntegerLiteral c1)]), True)
          else (BinaryOperatorNode BO_Add
                  (llvm_sort Lex [LeafExprNode (DeclRefExpr D),
                                  LeafExprNode (IntegerLiteral (c1 + c2))]), False))"
  unfolding NormalizeLoop.simps [of Lex "BinaryOperatorNode BO_Add
           [LeafExprNode (IntegerLiteral 0),
            BinaryOperatorNode BO_Add
              [BinaryOperatorNode BO_Add
                 [LeafExprNode (DeclRefExpr D), LeafExprNode (IntegerLiteral c1)],
               LeafExprNode (IntegerLiteral c2)]]" False]
  using AddOverflows_commute [of c1 c2]
  by (simp add: IsOpCommutativeAndAssociative_def CanCoalesce_def CoalesceChildren.simps fold_sorted_four [OF va]
           NormalizeLoop_var_literal [OF va] add.commute
           del: ConstantFold.simps)

lemma NormalizeLoop_var_sum:
  assumes va: "VarApartFromLiterals Lex (DeclRefExpr D)"
  shows "NormalizeLoop Lex (BinaryOperatorNode BO_Add
           [LeafExprNode (IntegerLiteral 0),
            BinaryOperatorNode BO_Add
              [LeafExprNode (DeclRefExpr D),
               BinaryOperatorNode BO_Add
                 [LeafExprNode (IntegerLiteral c1), LeafExprNode (IntegerLiteral c2)]]]) False =
         (if AddOverflows c1 c2
          then (BinaryOperatorNode BO_Add
                  (llvm_sort Lex [LeafExprNode (IntegerLiteral 0), LeafExprNode (DeclRefExpr D),
                                  LeafExprNode (IntegerLiteral c1), LeafExprNode (IntegerLiteral c2)]), True)
          else (BinaryOperatorNode BO_Add
                  (llvm_sort Lex [LeafExprNode (DeclRefExpr D),
                                  LeafExprNode (IntegerLiteral (c1 + c2))]), False))"
  unfolding NormalizeLoop.simps [of Lex "BinaryOperatorNode BO_Add
           [LeafExprNode (IntegerLiteral 0),
            BinaryOperatorNode BO_Add
              [LeafExprNode (DeclRefExpr D),
               BinaryOperatorNode BO_Add
                 [LeafExprNode (IntegerLiteral c1), LeafExprNode (IntegerLiteral c2)]]]" False]
  by (simp add: IsOpCommutativeAndAssociative_def CanCoalesce_def CoalesceChildren.simps fold_sorted_four [OF va]
           NormalizeLoop_var_literal [OF va]
           del: ConstantFold.simps)

lemma NormalizeLoop_var_folded:
  assumes va: "VarApartFromLiterals Lex (DeclRefExpr D)"
  shows "NormalizeLoop Lex (BinaryOperatorNode BO_Add
           [LeafExprNode (IntegerLiteral 0),
            BinaryOperatorNode BO_Add
              [LeafExprNode (DeclRefExpr D), LeafExprNode (IntegerLiteral v)]]) False =
         (BinaryOperatorNode BO_Add
            (llvm_sort Lex [LeafExprNode (DeclRefExpr D), LeafExprNode (IntegerLiteral v)]), False)"
  unfolding NormalizeLoop.simps [of Lex "BinaryOperatorNode BO_Add
           [LeafExprNode (IntegerLiteral 0),
            BinaryOperatorNode BO_Add
              [LeafExprNode (DeclRefExpr D), LeafExprNode (IntegerLiteral v)]]" False]
  by (simp add: IsOpCommutativeAndAssociative_def CanCoalesce_def CoalesceChildren.simps fold_sorted_three [OF va]
           NormalizeLoop_var_literal [OF va]
           del: ConstantFold.simps)

lemma StdLex_VarApartFromLiterals: "VarApartFromLiterals StdLex (DeclRefExpr D)"
  by (simp add: VarApartFromLiterals_def CompareKeys_def)

section \<open>When \<^verbatim>\<open>GetDerefOffset\<close> returns an offset\<close>

lemma GetDerefOffsetChildren_Some:
  "GetDerefOffsetChildren Lex Opc Cs1 Cs2 Off = Some k \<Longrightarrow> length Cs1 = length Cs2 \<Longrightarrow>
     list_all2 (OffsetPair Lex Opc) Cs1 Cs2"
proof (induction Lex Opc Cs1 Cs2 Off rule: GetDerefOffsetChildren.induct)
  case (1 Lex Opc Children2 Offset)
  then show ?case by simp
next
  case (2 Lex Opc Child1 Children1 Offset)
  then show ?case by simp
next
  case (3 Lex Opc Child1 Children1 Child2 Children2 Offset)
  show ?case
  proof (cases "Compare Lex Child1 Child2 = Equal")
    case True
    then have "OffsetPair Lex Opc Child1 Child2" by (simp add: OffsetPair_def)
    moreover have "list_all2 (OffsetPair Lex Opc) Children1 Children2"
      using 3 True by simp
    ultimately show ?thesis by simp
  next
    case False
    from "3.prems"(1) False obtain E1 E2 where l: "Child1 = LeafExprNode E1" "Child2 = LeafExprNode E2"
      by (cases Child1; cases Child2) simp_all
    from "3.prems"(1) False l obtain U where u: "isIntegerConstantExpr E1 = Some U"
      by (cases "isIntegerConstantExpr E1") simp_all
    from "3.prems"(1) False l u obtain V where v: "isIntegerConstantExpr E2 = Some V"
      by (cases "isIntegerConstantExpr E2") simp_all
    from "3.prems"(1) False l u v have o: "Opc = BO_Add" and z: "Offset = 0"
      by (simp_all split: if_splits)
    obtain W Ov where s: "ssub_ov V U = (W, Ov)" by (cases "ssub_ov V U")
    from "3.prems"(1) False l u v o z s have no: "\<not> Ov"
      and r: "GetDerefOffsetChildren Lex Opc Children1 Children2 W = Some k"
      by (simp_all split: if_splits)
    have "list_all2 (OffsetPair Lex Opc) Children1 Children2"
      by (rule "3.IH"(2) [OF False refl l(1) l(2) u v _ _ s [symmetric] no r])
         (use o z "3.prems"(2) in simp_all)
    moreover have "OffsetPair Lex Opc Child1 Child2"
      using l u v o by (simp add: OffsetPair_def)
    ultimately show ?thesis by simp
  qed
qed

lemma GetDerefOffsetChildren_all_equal:
  "list_all2 (EqualPair Lex) Cs1 Cs2 \<Longrightarrow> GetDerefOffsetChildren Lex Opc Cs1 Cs2 Off = Some Off"
  by (induction Cs1 Cs2 rule: list_all2_induct) (simp_all add: EqualPair_def)

lemma GetDerefOffsetChildren_skip_equal:
  "list_all2 (EqualPair Lex) Xs Xs' \<Longrightarrow>
     GetDerefOffsetChildren Lex Opc (Xs @ R) (Xs' @ R') Off = GetDerefOffsetChildren Lex Opc R R' Off"
  by (induction Xs Xs' rule: list_all2_induct) (simp_all add: EqualPair_def)

lemma GetDerefOffset_Some:
  assumes "GetDerefOffset Lex UpperNode DerefNode Off = Some k"
  shows "\<exists>Opc Cs1 Cs2. UpperNode = BinaryOperatorNode Opc Cs1 \<and> DerefNode = BinaryOperatorNode Opc Cs2
           \<and> length Cs1 = length Cs2 \<and> list_all2 (OffsetPair Lex Opc) Cs1 Cs2"
proof -
  from assms obtain Opc1 Cs1 where u: "UpperNode = BinaryOperatorNode Opc1 Cs1"
    by (cases UpperNode) (simp_all add: GetDerefOffset_def)
  from assms u obtain Opc2 Cs2 where d: "DerefNode = BinaryOperatorNode Opc2 Cs2"
    by (cases DerefNode) (simp_all add: GetDerefOffset_def)
  from assms u d have o: "Opc1 = Opc2" and l: "length Cs1 = length Cs2"
    and r: "GetDerefOffsetChildren Lex Opc1 Cs1 Cs2 Off = Some k"
    by (simp_all add: GetDerefOffset_def split: if_splits)
  from GetDerefOffsetChildren_Some [OF r l] u d o l show ?thesis by blast
qed

lemma GetDerefOffset_all_equal:
  assumes "list_all2 (EqualPair Lex) Cs1 Cs2"
  shows "GetDerefOffset Lex (BinaryOperatorNode Opc Cs1) (BinaryOperatorNode Opc Cs2) Off = Some Off"
  using GetDerefOffsetChildren_all_equal [OF assms] list_all2_lengthD [OF assms]
  by (simp add: GetDerefOffset_def)

lemma GetDerefOffset_one_constant_pair:
  assumes xs: "list_all2 (EqualPair Lex) Xs Xs'" and ys: "list_all2 (EqualPair Lex) Ys Ys'"
    and ne: "Compare Lex (LeafExprNode E1) (LeafExprNode E2) \<noteq> Equal"
    and u: "isIntegerConstantExpr E1 = Some UpperOffset"
    and d: "isIntegerConstantExpr E2 = Some DerefOffset"
  shows "GetDerefOffset Lex (BinaryOperatorNode BO_Add (Xs @ LeafExprNode E1 # Ys))
                            (BinaryOperatorNode BO_Add (Xs' @ LeafExprNode E2 # Ys')) 0 =
         (if snd (ssub_ov DerefOffset UpperOffset) then None
          else Some (fst (ssub_ov DerefOffset UpperOffset)))"
proof -
  have l: "length (Xs @ LeafExprNode E1 # Ys) = length (Xs' @ LeafExprNode E2 # Ys')"
    using list_all2_lengthD [OF xs] list_all2_lengthD [OF ys] by simp
  have "GetDerefOffsetChildren Lex BO_Add (Xs @ LeafExprNode E1 # Ys) (Xs' @ LeafExprNode E2 # Ys') 0 =
        GetDerefOffsetChildren Lex BO_Add (LeafExprNode E1 # Ys) (LeafExprNode E2 # Ys') 0"
    by (rule GetDerefOffsetChildren_skip_equal [OF xs])
  also have "\<dots> = (if snd (ssub_ov DerefOffset UpperOffset) then None
                   else Some (fst (ssub_ov DerefOffset UpperOffset)))"
    using ne u d GetDerefOffsetChildren_all_equal [OF ys, of BO_Add]
    by (simp add: split_beta del: Compare.simps)
  finally show ?thesis using l by (simp add: GetDerefOffset_def)
qed

section \<open>The canonical trees of \<^verbatim>\<open>p + i\<close>, \<^verbatim>\<open>i + p\<close> and \<^verbatim>\<open>i + p + 1\<close>\<close>

lemma StdLex_Compare_DeclRef:
  "CompareExpr StdLex (DeclRefExpr a) (DeclRefExpr b) = CompareInteger a b"
  "CompareExpr StdLex (DeclRefExpr a) (IntegerLiteral V) = LessThan"
  "CompareExpr StdLex (IntegerLiteral V) (DeclRefExpr a) = GreaterThan"
  "CompareExpr StdLex (IntegerLiteral 0) (IntegerLiteral 1) = LessThan"
  "CompareExpr StdLex (IntegerLiteral 1) (IntegerLiteral 0) = GreaterThan"
  "CompareExpr StdLex E E = Equal"
  by (auto simp: CompareKeys_def CompareInteger_def)

lemma Normalize_var_plus_var:
  "Normalize StdLex (PreorderAST_new StdLex (BinaryOperator BO_Add (DeclRefExpr p) (DeclRefExpr i))) =
     \<lparr>Root = BinaryOperatorNode BO_Add
               [LeafExprNode (DeclRefExpr (min p i)), LeafExprNode (DeclRefExpr (max p i)),
                LeafExprNode (IntegerLiteral 0)],
      Error = False\<rparr>"
proof -
  consider "p < i" | "p = i" | "i < p" by linarith
  then show ?thesis
    by cases
       (simp_all add: Normalize_def PreorderAST_new_eq CreateNode_BinaryOperator
          NormalizeLoop.simps CanCoalesce_def CoalesceChildren.simps IsOpCommutativeAndAssociative_def llvm_sort_def
          CompareKinds_def CompareInteger_def StdLex_Compare_DeclRef
          FoldLeaf_def FoldState_init_def Let_def min_def max_def del: StdLex_simps)
qed

lemma Normalize_var_plus_var_plus_one:
  "Normalize StdLex (PreorderAST_new StdLex
     (BinaryOperator BO_Add (BinaryOperator BO_Add (DeclRefExpr i) (DeclRefExpr p)) (IntegerLiteral 1))) =
     \<lparr>Root = BinaryOperatorNode BO_Add
               [LeafExprNode (DeclRefExpr (min p i)), LeafExprNode (DeclRefExpr (max p i)),
                LeafExprNode (IntegerLiteral 1)],
      Error = False\<rparr>"
proof -
  consider "p < i" | "p = i" | "i < p" by linarith
  then show ?thesis
    by cases
       (simp_all add: Normalize_def PreorderAST_new_eq CreateNode_BinaryOperator
          NormalizeLoop.simps CanCoalesce_def CoalesceChildren.simps IsOpCommutativeAndAssociative_def llvm_sort_def
          CompareKinds_def CompareInteger_def StdLex_Compare_DeclRef sadd_ov_eq
          FoldLeaf_def FoldState_init_def Let_def min_def max_def del: StdLex_simps)
qed

lemma GetDerefOffset_var_var:
  "GetDerefOffset StdLex
     (BinaryOperatorNode BO_Add
        [LeafExprNode (DeclRefExpr a), LeafExprNode (DeclRefExpr b), LeafExprNode (IntegerLiteral 0)])
     (BinaryOperatorNode BO_Add
        [LeafExprNode (DeclRefExpr a), LeafExprNode (DeclRefExpr b), LeafExprNode (IntegerLiteral 0)])
     0 = Some 0"
  "GetDerefOffset StdLex
     (BinaryOperatorNode BO_Add
        [LeafExprNode (DeclRefExpr a), LeafExprNode (DeclRefExpr b), LeafExprNode (IntegerLiteral 0)])
     (BinaryOperatorNode BO_Add
        [LeafExprNode (DeclRefExpr a), LeafExprNode (DeclRefExpr b), LeafExprNode (IntegerLiteral 1)])
     0 = Some 1"
  by (simp_all add: GetDerefOffset_def CompareKinds_def CompareInteger_def StdLex_Compare_DeclRef
        ssub_ov_def del: StdLex_simps)

section \<open>Properties of the canonicaliser\<close>

text \<open>
  C9. \<^verbatim>\<open>Compare\<close> is a function to \<^verbatim>\<open>Result\<close>, so it returns exactly one of the
  three results, the same for the same pair. Given a host comparator that is an order,
  \<^verbatim>\<open>Compare A B = LessThan\<close> exactly when \<^verbatim>\<open>Compare B A = GreaterThan\<close>, equality
  is symmetric and a congruence, less-than is transitive, and the comparison is
  lexicographic: nodes of different classes are ordered by class; two binary nodes by
  operator, then by number of children, then by the first pair of children that differ;
  two unary nodes by operator, then by their children; two member nodes by the arrow
  flag, then by the host's comparison of the fields, then by their bases; two cast nodes
  by cast kind, then by their children; two leaves by the host's comparison of their
  expressions. Every tree compares equal to itself.
\<close>

theorem C9_Compare_total_order:
  assumes "LexOrder Lex"
  shows "(Compare Lex A B = LessThan \<longleftrightarrow> Compare Lex B A = GreaterThan)
       \<and> (Compare Lex A B = Equal \<longleftrightarrow> Compare Lex B A = Equal)
       \<and> (Compare Lex A B = LessThan \<and> Compare Lex B C = LessThan \<longrightarrow> Compare Lex A C = LessThan)
       \<and> (Compare Lex A B = Equal \<longrightarrow> Compare Lex A C = Compare Lex B C)
       \<and> (Kind A \<noteq> Kind B \<longrightarrow> Compare Lex A B = CompareKinds A B)
       \<and> Compare Lex (BinaryOperatorNode Opc1 Cs1) (BinaryOperatorNode Opc2 Cs2) =
            (if BinaryOperatorKind_code Opc1 < BinaryOperatorKind_code Opc2 then LessThan
             else if BinaryOperatorKind_code Opc1 > BinaryOperatorKind_code Opc2 then GreaterThan
             else if length Cs1 < length Cs2 then LessThan
             else if length Cs1 > length Cs2 then GreaterThan
             else CompareChildren Lex Cs1 Cs2)
       \<and> CompareChildren Lex (A # Cs1) (B # Cs2) =
            (if Compare Lex A B \<noteq> Equal then Compare Lex A B else CompareChildren Lex Cs1 Cs2)
       \<and> Compare Lex (UnaryOperatorNode UOpc1 U1) (UnaryOperatorNode UOpc2 U2) =
            (if UnaryOperatorKind_code UOpc1 < UnaryOperatorKind_code UOpc2 then LessThan
             else if UnaryOperatorKind_code UOpc1 > UnaryOperatorKind_code UOpc2 then GreaterThan
             else Compare Lex U1 U2)
       \<and> Compare Lex (MemberNode F1 Arrow1 M1) (MemberNode F2 Arrow2 M2) =
            (if Arrow1 \<and> \<not> Arrow2 then LessThan
             else if \<not> Arrow1 \<and> Arrow2 then GreaterThan
             else if CompareDecl Lex F1 F2 \<noteq> Equal then CompareDecl Lex F1 F2
             else Compare Lex M1 M2)
       \<and> Compare Lex (ImplicitCastNode CK1 I1) (ImplicitCastNode CK2 I2) =
            (if CK1 < CK2 then LessThan else if CK1 > CK2 then GreaterThan
             else Compare Lex I1 I2)
       \<and> Compare Lex (LeafExprNode E1) (LeafExprNode E2) = CompareExpr Lex E1 E2
       \<and> Compare Lex A A = Equal"
proof -
  from assms have an: "LexAntisym Lex" and eq: "LexEqCongr Lex" and tr: "LexTrans Lex"
    by (simp_all add: LexOrder_def)
  have sw: "Compare Lex B A = Result_swap (Compare Lex A B)"
    by (rule Compare_swap [OF an])
  have 1: "Compare Lex A B = LessThan \<longleftrightarrow> Compare Lex B A = GreaterThan"
    unfolding sw by (cases "Compare Lex A B") simp_all
  have 2: "Compare Lex A B = Equal \<longleftrightarrow> Compare Lex B A = Equal"
    unfolding sw by simp
  have 3: "Compare Lex A B = LessThan \<and> Compare Lex B C = LessThan \<longrightarrow> Compare Lex A C = LessThan"
    using Compare_LessThan_trans [OF an eq tr] by blast
  have 4: "Compare Lex A B = Equal \<longrightarrow> Compare Lex A C = Compare Lex B C"
    using Compare_Equal_congr [OF eq] by blast
  have 5: "Kind A \<noteq> Kind B \<longrightarrow> Compare Lex A B = CompareKinds A B"
    by (simp add: Compare_diff_Kind)
  have 6: "Compare Lex (BinaryOperatorNode Opc1 Cs1) (BinaryOperatorNode Opc2 Cs2) =
            (if BinaryOperatorKind_code Opc1 < BinaryOperatorKind_code Opc2 then LessThan
             else if BinaryOperatorKind_code Opc1 > BinaryOperatorKind_code Opc2 then GreaterThan
             else if length Cs1 < length Cs2 then LessThan
             else if length Cs1 > length Cs2 then GreaterThan
             else CompareChildren Lex Cs1 Cs2)"
    by (simp add: CompareKinds_def CompareInteger_def)
  have 7: "CompareChildren Lex (A # Cs1) (B # Cs2) =
            (if Compare Lex A B \<noteq> Equal then Compare Lex A B else CompareChildren Lex Cs1 Cs2)"
    by simp
  have 8: "Compare Lex (LeafExprNode E1) (LeafExprNode E2) = CompareExpr Lex E1 E2"
    by (simp add: CompareKinds_def CompareInteger_def)
  have 9: "Compare Lex (UnaryOperatorNode UOpc1 U1) (UnaryOperatorNode UOpc2 U2) =
            (if UnaryOperatorKind_code UOpc1 < UnaryOperatorKind_code UOpc2 then LessThan
             else if UnaryOperatorKind_code UOpc1 > UnaryOperatorKind_code UOpc2 then GreaterThan
             else Compare Lex U1 U2)"
    by (simp add: CompareKinds_def CompareInteger_def)
  have 10: "Compare Lex (MemberNode F1 Arrow1 M1) (MemberNode F2 Arrow2 M2) =
            (if Arrow1 \<and> \<not> Arrow2 then LessThan
             else if \<not> Arrow1 \<and> Arrow2 then GreaterThan
             else if CompareDecl Lex F1 F2 \<noteq> Equal then CompareDecl Lex F1 F2
             else Compare Lex M1 M2)"
    by (simp add: CompareKinds_def CompareInteger_def)
  have 11: "Compare Lex (ImplicitCastNode CK1 I1) (ImplicitCastNode CK2 I2) =
            (if CK1 < CK2 then LessThan else if CK1 > CK2 then GreaterThan
             else Compare Lex I1 I2)"
    by (simp add: CompareKinds_def CompareInteger_def)
  have 12: "Compare Lex A A = Equal"
    using Compare_swap [OF an, of A A] by (cases "Compare Lex A A") simp_all
  from 1 2 3 4 5 6 7 8 9 10 11 12 show ?thesis by blast
qed

text \<open>C9 on the example comparator and three leaves.\<close>

theorem C9_Compare_total_order_witness:
  "LexOrder StdLex
   \<and> Compare StdLex (LeafExprNode (DeclRefExpr 0)) (LeafExprNode (DeclRefExpr 1)) = LessThan
   \<and> Compare StdLex (LeafExprNode (DeclRefExpr 1)) (LeafExprNode (DeclRefExpr 0)) = GreaterThan
   \<and> Compare StdLex (LeafExprNode (DeclRefExpr 1)) (LeafExprNode (IntegerLiteral 7)) = LessThan
   \<and> Compare StdLex (LeafExprNode (DeclRefExpr 0)) (LeafExprNode (IntegerLiteral 7)) = LessThan"
  using C9_Compare_total_order [OF StdLex_LexOrder,
      of "LeafExprNode (DeclRefExpr 0)" "LeafExprNode (DeclRefExpr 1)"
         "LeafExprNode (IntegerLiteral 7)"]
  by (simp add: StdLex_LexOrder CompareKinds_def CompareInteger_def CompareKeys_def)

text \<open>
  C5. For every expression the tree built from it has a root that is a binary node with
  operator \<^verbatim>\<open>+\<close>, whose children are the literal 0 and the node of the expression,
  and no error is set; coalescing, sorting and constant folding each leave a root with
  operator \<^verbatim>\<open>+\<close> a binary node with operator \<^verbatim>\<open>+\<close>, and so does normalisation.
\<close>

theorem C5_root_is_additive_BinaryOperatorNode:
  "PreorderAST_new Lex E =
      \<lparr>Root = BinaryOperatorNode BO_Add [LeafExprNode (IntegerLiteral 0), CreateNode Lex E],
       Error = False\<rparr>
   \<and> (\<exists>Cs'. fst (Coalesce None Err (BinaryOperatorNode BO_Add Cs)) = Stays (BinaryOperatorNode BO_Add Cs'))
   \<and> (\<exists>Cs'. Sort Lex (BinaryOperatorNode BO_Add Cs) = BinaryOperatorNode BO_Add Cs')
   \<and> (\<exists>Cs'. fst (ConstantFold None Err (BinaryOperatorNode BO_Add Cs))
               = Stays (BinaryOperatorNode BO_Add Cs'))
   \<and> (\<exists>Cs'. Root (Normalize Lex (PreorderAST_new Lex E)) = BinaryOperatorNode BO_Add Cs')"
proof -
  have "\<exists>Cs'. Root (Normalize Lex (PreorderAST_new Lex E)) = BinaryOperatorNode BO_Add Cs'"
    using NormalizeLoop_root [of Lex BO_Add "[LeafExprNode (IntegerLiteral 0), CreateNode Lex E]" False]
    by (auto simp: Normalize_def PreorderAST_new_eq split: prod.splits)
  then show ?thesis
    using PreorderAST_new_eq [of Lex E] Coalesce_None_root [of Err BO_Add Cs]
      Sort_root [of Lex BO_Add Cs] ConstantFold_None_root [of Err BO_Add Cs]
    by blast
qed

text \<open>C5 on \<^verbatim>\<open>*p\<close>, an expression without an addition.\<close>

theorem C5_root_is_additive_witness:
  "Root (PreorderAST_new StdLex (UnaryOperator UO_Deref (DeclRefExpr 0))) =
     BinaryOperatorNode BO_Add
       [LeafExprNode (IntegerLiteral 0),
        UnaryOperatorNode UO_Deref
          (BinaryOperatorNode BO_Add [LeafExprNode (IntegerLiteral 0), LeafExprNode (DeclRefExpr 0)])]"
proof -
  have "CreateNode StdLex (UnaryOperator UO_Deref (DeclRefExpr 0)) =
        UnaryOperatorNode UO_Deref
          (BinaryOperatorNode BO_Add [LeafExprNode (IntegerLiteral 0), LeafExprNode (DeclRefExpr 0)])"
    by code_simp
  with C5_root_is_additive_BinaryOperatorNode [of StdLex "UnaryOperator UO_Deref (DeclRefExpr 0)"]
  show ?thesis by simp
qed

text \<open>
  C6. The node built for \<^verbatim>\<open>a - b\<close> is the node of \<^verbatim>\<open>a + (-b)\<close>, with \<^verbatim>\<open>-b\<close> a
  leaf, when \<^verbatim>\<open>b\<close> is an integer constant expression and evaluating \<^verbatim>\<open>-b\<close> does
  not overflow; otherwise it is the subtraction node with the nodes of \<^verbatim>\<open>a\<close> and
  \<^verbatim>\<open>b\<close> as its children.
\<close>

theorem C6_subtraction_of_constant:
  "CreateNode Lex (BinaryOperator BO_Sub A B) =
     (if isIntegerConstantExpr B \<noteq> None \<and> \<not> EvaluateOverflows (UnaryOperator UO_Minus B)
      then BinaryOperatorNode BO_Add [CreateNode Lex A, LeafExprNode (UnaryOperator UO_Minus B)]
      else BinaryOperatorNode BO_Sub [CreateNode Lex A, CreateNode Lex B])"
proof (cases "isIntegerConstantExpr B \<noteq> None \<and> \<not> EvaluateOverflows (UnaryOperator UO_Minus B)")
  case True
  then have c: "isIntegerConstantExpr (UnaryOperator UO_Minus B) \<noteq> None"
    by (auto simp: isIntegerConstantExpr_def split: option.splits prod.splits)
  have "CreateNode Lex (UnaryOperator UO_Minus B) = LeafExprNode (UnaryOperator UO_Minus B)"
    unfolding CreateNode_def using c by (subst Create_unfold) (simp_all add: Let_def)
  with True show ?thesis by (simp add: CreateNode_BinaryOperator)
next
  case False
  then show ?thesis by (auto simp add: CreateNode_BinaryOperator)
qed

text \<open>C6 on \<^verbatim>\<open>p - 1\<close> and on \<^verbatim>\<open>p - 2147483648\<close>, whose negation overflows.\<close>

theorem C6_subtraction_of_constant_witness:
  "CreateNode StdLex (BinaryOperator BO_Sub (DeclRefExpr 0) (IntegerLiteral 1)) =
     BinaryOperatorNode BO_Add
       [LeafExprNode (DeclRefExpr 0), LeafExprNode (UnaryOperator UO_Minus (IntegerLiteral 1))]
   \<and> CreateNode StdLex (BinaryOperator BO_Sub (DeclRefExpr 0) (IntegerLiteral 2147483648)) =
     BinaryOperatorNode BO_Sub
       [LeafExprNode (DeclRefExpr 0), LeafExprNode (IntegerLiteral 2147483648)]"
  using C6_subtraction_of_constant [of StdLex "DeclRefExpr 0" "IntegerLiteral 1"]
        C6_subtraction_of_constant [of StdLex "DeclRefExpr 0" "IntegerLiteral 2147483648"]
  by (simp add: isIntegerConstantExpr_def EvaluateOverflows_def ssub_ov_def)

text \<open>
  C4. The canonical tree does depend on the grouping of the operands. The loop of
  \<^verbatim>\<open>Coalesce\<close> passes over the child that follows a child which has coalesced, so in
  \<^verbatim>\<open>+ [+ [a, b], + [c, d]]\<close> only the first child is merged in a round, and the
  grouping decides which constants are folded together first. With the example
  comparator, \<^verbatim>\<open>((65536 * 65536) * y) * 0\<close> is normalised without error, to
  \<^verbatim>\<open>+ [* [y, 0], 0]\<close>, while \<^verbatim>\<open>(65536 * 65536) * (y * 0)\<close> sets \<^verbatim>\<open>Error\<close>;
  and \<^verbatim>\<open>((2147483647 - 1) + y) + 1\<close> sets \<^verbatim>\<open>Error\<close>, while
  \<^verbatim>\<open>(2147483647 - 1) + (y + 1)\<close> is normalised without error to
  \<^verbatim>\<open>+ [y, 2147483647]\<close>.
\<close>

theorem C4_regrouping_changes_the_canonical_tree:
  "Normalize StdLex (PreorderAST_new StdLex
      (BinaryOperator BO_Mul
         (BinaryOperator BO_Mul
            (BinaryOperator BO_Mul (IntegerLiteral 65536) (IntegerLiteral 65536)) (DeclRefExpr 0))
         (IntegerLiteral 0))) =
     \<lparr>Root = BinaryOperatorNode BO_Add
               [BinaryOperatorNode BO_Mul
                  [LeafExprNode (DeclRefExpr 0), LeafExprNode (IntegerLiteral 0)],
                LeafExprNode (IntegerLiteral 0)],
      Error = False\<rparr>
   \<and> Error (Normalize StdLex (PreorderAST_new StdLex
      (BinaryOperator BO_Mul
         (BinaryOperator BO_Mul (IntegerLiteral 65536) (IntegerLiteral 65536))
         (BinaryOperator BO_Mul (DeclRefExpr 0) (IntegerLiteral 0))))) = True
   \<and> Error (Normalize StdLex (PreorderAST_new StdLex
      (BinaryOperator BO_Add
         (BinaryOperator BO_Add
            (BinaryOperator BO_Sub (IntegerLiteral 2147483647) (IntegerLiteral 1)) (DeclRefExpr 0))
         (IntegerLiteral 1)))) = True
   \<and> Normalize StdLex (PreorderAST_new StdLex
      (BinaryOperator BO_Add
         (BinaryOperator BO_Sub (IntegerLiteral 2147483647) (IntegerLiteral 1))
         (BinaryOperator BO_Add (DeclRefExpr 0) (IntegerLiteral 1)))) =
     \<lparr>Root = BinaryOperatorNode BO_Add
               [LeafExprNode (DeclRefExpr 0), LeafExprNode (IntegerLiteral 2147483647)],
      Error = False\<rparr>
   \<and> Coalesce None False
       (BinaryOperatorNode BO_Add
          [BinaryOperatorNode BO_Add [LeafExprNode (DeclRefExpr 1), LeafExprNode (DeclRefExpr 2)],
           BinaryOperatorNode BO_Add [LeafExprNode (DeclRefExpr 3), LeafExprNode (DeclRefExpr 4)]]) =
     (Stays (BinaryOperatorNode BO_Add
          [BinaryOperatorNode BO_Add [LeafExprNode (DeclRefExpr 3), LeafExprNode (DeclRefExpr 4)],
           LeafExprNode (DeclRefExpr 1), LeafExprNode (DeclRefExpr 2)]), True)"
  by code_simp

text \<open>
  C3. Let \<^verbatim>\<open>x\<close> be a variable that the host orders on one side of all integer
  literals, and \<^verbatim>\<open>c1\<close>, \<^verbatim>\<open>c2\<close> integer constants. If \<^verbatim>\<open>c1 + c2\<close> does not
  overflow, normalising \<^verbatim>\<open>x + c1 + c2\<close> succeeds with the root
  \<^verbatim>\<open>+ [x, c1 + c2]\<close> (sorted), and \<^verbatim>\<open>x + (c1 + c2)\<close> and \<^verbatim>\<open>x + c\<close>, with
  \<^verbatim>\<open>c\<close> the literal of the sum, normalise to the same tree. If \<^verbatim>\<open>c1 + c2\<close>
  overflows, normalisation sets \<^verbatim>\<open>Error\<close>, and the children of the root are the
  variable and the literals 0, \<^verbatim>\<open>c1\<close>, \<^verbatim>\<open>c2\<close> as written, sorted: no folded
  constant is in the tree.
\<close>

theorem C3_constant_folding_sound:
  assumes "VarApartFromLiterals Lex (DeclRefExpr D)"
  shows "(\<not> snd (sadd_ov c1 c2) \<longrightarrow>
            Normalize Lex (PreorderAST_new Lex
              (BinaryOperator BO_Add (BinaryOperator BO_Add (DeclRefExpr D) (IntegerLiteral c1))
                                     (IntegerLiteral c2))) =
              \<lparr>Root = BinaryOperatorNode BO_Add
                        (llvm_sort Lex [LeafExprNode (DeclRefExpr D),
                                        LeafExprNode (IntegerLiteral (fst (sadd_ov c1 c2)))]),
               Error = False\<rparr>
          \<and> Normalize Lex (PreorderAST_new Lex
              (BinaryOperator BO_Add (DeclRefExpr D)
                 (ParenExpr (BinaryOperator BO_Add (IntegerLiteral c1) (IntegerLiteral c2))))) =
            Normalize Lex (PreorderAST_new Lex
              (BinaryOperator BO_Add (BinaryOperator BO_Add (DeclRefExpr D) (IntegerLiteral c1))
                                     (IntegerLiteral c2)))
          \<and> Normalize Lex (PreorderAST_new Lex
              (BinaryOperator BO_Add (DeclRefExpr D) (IntegerLiteral (fst (sadd_ov c1 c2))))) =
            Normalize Lex (PreorderAST_new Lex
              (BinaryOperator BO_Add (BinaryOperator BO_Add (DeclRefExpr D) (IntegerLiteral c1))
                                     (IntegerLiteral c2))))
       \<and> (snd (sadd_ov c1 c2) \<longrightarrow>
            Normalize Lex (PreorderAST_new Lex
              (BinaryOperator BO_Add (BinaryOperator BO_Add (DeclRefExpr D) (IntegerLiteral c1))
                                     (IntegerLiteral c2))) =
              \<lparr>Root = BinaryOperatorNode BO_Add
                        (llvm_sort Lex [LeafExprNode (IntegerLiteral 0), LeafExprNode (IntegerLiteral c2),
                                        LeafExprNode (DeclRefExpr D), LeafExprNode (IntegerLiteral c1)]),
               Error = True\<rparr>
          \<and> Normalize Lex (PreorderAST_new Lex
              (BinaryOperator BO_Add (DeclRefExpr D)
                 (ParenExpr (BinaryOperator BO_Add (IntegerLiteral c1) (IntegerLiteral c2))))) =
              \<lparr>Root = BinaryOperatorNode BO_Add
                        (llvm_sort Lex [LeafExprNode (IntegerLiteral 0), LeafExprNode (DeclRefExpr D),
                                        LeafExprNode (IntegerLiteral c1), LeafExprNode (IntegerLiteral c2)]),
               Error = True\<rparr>)"
  by (simp add: Normalize_def PreorderAST_new_eq CreateNode_BinaryOperator sadd_ov_eq
        NormalizeLoop_var_two_literals [OF assms] NormalizeLoop_var_sum [OF assms]
        NormalizeLoop_var_folded [OF assms])

text \<open>
  C3 on \<^verbatim>\<open>x + 2 + 3\<close> against \<^verbatim>\<open>x + 5\<close> and on \<^verbatim>\<open>x + 2147483647 + 1\<close>, which
  overflows, with the example comparator.
\<close>

theorem C3_constant_folding_sound_witness:
  "VarApartFromLiterals StdLex (DeclRefExpr 0)
   \<and> Normalize StdLex (PreorderAST_new StdLex
        (BinaryOperator BO_Add (BinaryOperator BO_Add (DeclRefExpr 0) (IntegerLiteral 2))
                               (IntegerLiteral 3))) =
       \<lparr>Root = BinaryOperatorNode BO_Add
                 [LeafExprNode (DeclRefExpr 0), LeafExprNode (IntegerLiteral 5)],
        Error = False\<rparr>
   \<and> Normalize StdLex (PreorderAST_new StdLex
        (BinaryOperator BO_Add (DeclRefExpr 0) (IntegerLiteral 5))) =
       \<lparr>Root = BinaryOperatorNode BO_Add
                 [LeafExprNode (DeclRefExpr 0), LeafExprNode (IntegerLiteral 5)],
        Error = False\<rparr>
   \<and> Normalize StdLex (PreorderAST_new StdLex
        (BinaryOperator BO_Add (BinaryOperator BO_Add (DeclRefExpr 0) (IntegerLiteral 2147483647))
                               (IntegerLiteral 1))) =
       \<lparr>Root = BinaryOperatorNode BO_Add
                 [LeafExprNode (DeclRefExpr 0), LeafExprNode (IntegerLiteral 0),
                  LeafExprNode (IntegerLiteral 1), LeafExprNode (IntegerLiteral 2147483647)],
        Error = True\<rparr>"
proof -
  have a: "sadd_ov 2 3 = (5, False)" by (simp add: sadd_ov_def)
  have b: "sadd_ov 2147483647 1 = (2147483648, True)" by (simp add: sadd_ov_def)
  have s1: "llvm_sort StdLex [LeafExprNode (DeclRefExpr 0), LeafExprNode (IntegerLiteral 5)] =
            [LeafExprNode (DeclRefExpr 0), LeafExprNode (IntegerLiteral 5)]"
    by code_simp
  have s2: "llvm_sort StdLex [LeafExprNode (IntegerLiteral 0), LeafExprNode (IntegerLiteral 1),
                              LeafExprNode (DeclRefExpr 0), LeafExprNode (IntegerLiteral 2147483647)] =
            [LeafExprNode (DeclRefExpr 0), LeafExprNode (IntegerLiteral 0),
             LeafExprNode (IntegerLiteral 1), LeafExprNode (IntegerLiteral 2147483647)]"
    by code_simp
  from C3_constant_folding_sound [where Lex = StdLex and D = 0 and ?c1.0 = 2 and ?c2.0 = 3]
       C3_constant_folding_sound [where Lex = StdLex and D = 0 and ?c1.0 = 2147483647 and ?c2.0 = 1]
       StdLex_VarApartFromLiterals [of 0]
  show ?thesis by (simp add: a b s1 s2)
qed

text \<open>
  C2. If \<^verbatim>\<open>GetDerefOffset\<close> returns an offset, both nodes are binary nodes with the
  same operator and as many children, and every pair of children either compares equal
  or is a pair of integer constant leaves under \<^verbatim>\<open>+\<close>; so any mismatch of
  structure or operator yields no offset. If all pairs of children compare equal, the
  offset passed in is returned. If the children compare equal but for one pair of integer
  constant leaves under \<^verbatim>\<open>+\<close>, the offset is the constant of the dereference minus
  the constant of the bound, and there is no offset if that subtraction overflows.
\<close>

theorem C2_GetDerefOffset_characterisation:
  "(GetDerefOffset Lex UpperNode DerefNode Off = Some k \<longrightarrow>
      (\<exists>Opc Cs1 Cs2. UpperNode = BinaryOperatorNode Opc Cs1 \<and> DerefNode = BinaryOperatorNode Opc Cs2
         \<and> length Cs1 = length Cs2 \<and> list_all2 (OffsetPair Lex Opc) Cs1 Cs2))
   \<and> (list_all2 (EqualPair Lex) Cs1 Cs2 \<longrightarrow>
        GetDerefOffset Lex (BinaryOperatorNode Opc Cs1) (BinaryOperatorNode Opc Cs2) Off = Some Off)
   \<and> (list_all2 (EqualPair Lex) Xs Xs' \<and> list_all2 (EqualPair Lex) Ys Ys'
        \<and> Compare Lex (LeafExprNode E1) (LeafExprNode E2) \<noteq> Equal
        \<and> isIntegerConstantExpr E1 = Some UpperOffset
        \<and> isIntegerConstantExpr E2 = Some DerefOffset \<longrightarrow>
        GetDerefOffset Lex (BinaryOperatorNode BO_Add (Xs @ LeafExprNode E1 # Ys))
                           (BinaryOperatorNode BO_Add (Xs' @ LeafExprNode E2 # Ys')) 0 =
          (if snd (ssub_ov DerefOffset UpperOffset) then None
           else Some (fst (ssub_ov DerefOffset UpperOffset))))"
  using GetDerefOffset_Some [of Lex UpperNode DerefNode Off k]
        GetDerefOffset_all_equal [of Lex Cs1 Cs2 Opc Off]
        GetDerefOffset_one_constant_pair [of Lex Xs Xs' Ys Ys' E1 E2 UpperOffset DerefOffset]
  by blast

text \<open>
  C2 on the canonical trees of the bound \<^verbatim>\<open>p + i\<close> and the dereference
  \<^verbatim>\<open>*(p + i + 1)\<close>: the offset is 1. For the bound \<^verbatim>\<open>p + i * j\<close> and the
  dereference \<^verbatim>\<open>*(p + i + j)\<close> there is no offset.
\<close>

theorem C2_GetDerefOffset_examples:
  "Root (Normalize StdLex (PreorderAST_new StdLex
      (BinaryOperator BO_Add (DeclRefExpr 0) (DeclRefExpr 1)))) =
     BinaryOperatorNode BO_Add
       [LeafExprNode (DeclRefExpr 0), LeafExprNode (DeclRefExpr 1), LeafExprNode (IntegerLiteral 0)]
   \<and> Root (Normalize StdLex (PreorderAST_new StdLex
      (BinaryOperator BO_Add (BinaryOperator BO_Add (DeclRefExpr 0) (DeclRefExpr 1))
         (IntegerLiteral 1)))) =
     BinaryOperatorNode BO_Add
       [LeafExprNode (DeclRefExpr 0), LeafExprNode (DeclRefExpr 1), LeafExprNode (IntegerLiteral 1)]
   \<and> GetDerefOffset StdLex
       (BinaryOperatorNode BO_Add
         [LeafExprNode (DeclRefExpr 0), LeafExprNode (DeclRefExpr 1), LeafExprNode (IntegerLiteral 0)])
       (BinaryOperatorNode BO_Add
         [LeafExprNode (DeclRefExpr 0), LeafExprNode (DeclRefExpr 1), LeafExprNode (IntegerLiteral 1)])
       0 = Some 1
   \<and> GetDerefOffset StdLex
       (Root (Normalize StdLex (PreorderAST_new StdLex
          (BinaryOperator BO_Add (DeclRefExpr 0)
             (BinaryOperator BO_Mul (DeclRefExpr 1) (DeclRefExpr 2))))))
       (Root (Normalize StdLex (PreorderAST_new StdLex
          (BinaryOperator BO_Add (BinaryOperator BO_Add (DeclRefExpr 0) (DeclRefExpr 1))
             (DeclRefExpr 2)))))
       0 = None"
proof -
  have a: "Root (Normalize StdLex (PreorderAST_new StdLex
      (BinaryOperator BO_Add (DeclRefExpr 0) (DeclRefExpr 1)))) =
     BinaryOperatorNode BO_Add
       [LeafExprNode (DeclRefExpr 0), LeafExprNode (DeclRefExpr 1), LeafExprNode (IntegerLiteral 0)]"
    by code_simp
  have b: "Root (Normalize StdLex (PreorderAST_new StdLex
      (BinaryOperator BO_Add (BinaryOperator BO_Add (DeclRefExpr 0) (DeclRefExpr 1))
         (IntegerLiteral 1)))) =
     BinaryOperatorNode BO_Add
       [LeafExprNode (DeclRefExpr 0), LeafExprNode (DeclRefExpr 1), LeafExprNode (IntegerLiteral 1)]"
    by code_simp
  have c: "GetDerefOffset StdLex
       (Root (Normalize StdLex (PreorderAST_new StdLex
          (BinaryOperator BO_Add (DeclRefExpr 0)
             (BinaryOperator BO_Mul (DeclRefExpr 1) (DeclRefExpr 2))))))
       (Root (Normalize StdLex (PreorderAST_new StdLex
          (BinaryOperator BO_Add (BinaryOperator BO_Add (DeclRefExpr 0) (DeclRefExpr 1))
             (DeclRefExpr 2)))))
       0 = None"
    by code_simp
  have e: "list_all2 (EqualPair StdLex)
             [LeafExprNode (DeclRefExpr 0), LeafExprNode (DeclRefExpr 1)]
             [LeafExprNode (DeclRefExpr 0), LeafExprNode (DeclRefExpr 1)]"
    by (simp add: EqualPair_def CompareKeys_def CompareKinds_def CompareInteger_def)
  have n: "Compare StdLex (LeafExprNode (IntegerLiteral 0)) (LeafExprNode (IntegerLiteral 1)) \<noteq> Equal"
    by (simp add: CompareKeys_def CompareKinds_def CompareInteger_def)
  have s: "ssub_ov 1 0 = (1, False)" by (simp add: ssub_ov_def)
  from C2_GetDerefOffset_characterisation
         [where Lex = StdLex
            and Xs = "[LeafExprNode (DeclRefExpr 0), LeafExprNode (DeclRefExpr 1)]"
            and Xs' = "[LeafExprNode (DeclRefExpr 0), LeafExprNode (DeclRefExpr 1)]"
            and Ys = "[]" and Ys' = "[]"
            and ?E1.0 = "IntegerLiteral 0" and ?E2.0 = "IntegerLiteral 1"
            and UpperOffset = 0 and DerefOffset = 1]
       e n s
  have d: "GetDerefOffset StdLex
       (BinaryOperatorNode BO_Add
         [LeafExprNode (DeclRefExpr 0), LeafExprNode (DeclRefExpr 1), LeafExprNode (IntegerLiteral 0)])
       (BinaryOperatorNode BO_Add
         [LeafExprNode (DeclRefExpr 0), LeafExprNode (DeclRefExpr 1), LeafExprNode (IntegerLiteral 1)])
       0 = Some 1"
    by simp
  from a b c d show ?thesis by simp
qed

text \<open>
  C1. For a pointer \<^verbatim>\<open>p\<close> with declared upper bound \<^verbatim>\<open>p + i\<close> and the condition
  \<^verbatim>\<open>*(i + p)\<close>, with the example comparator: the dereference is at the declared upper
  bound, since \<^verbatim>\<open>i + p\<close> and \<^verbatim>\<open>p + i\<close> have the same canonical tree, and the upper
  bound widened to \<^verbatim>\<open>i + p + 1\<close> is the declared upper bound plus exactly 1.
\<close>

theorem C1_dereference_at_upper_bound_widens_by_one:
  "DerefOffsetBetween StdLex
     (BinaryOperator BO_Add (DeclRefExpr p) (DeclRefExpr i))
     (BinaryOperator BO_Add (DeclRefExpr i) (DeclRefExpr p)) = Some 0
   \<and> WidenedUpperBoundOffset StdLex
     (BinaryOperator BO_Add (DeclRefExpr p) (DeclRefExpr i))
     (BinaryOperator BO_Add (DeclRefExpr i) (DeclRefExpr p)) = Some 1"
proof -
  have a: "Normalize StdLex (PreorderAST_new StdLex (BinaryOperator BO_Add (DeclRefExpr i) (DeclRefExpr p))) =
           Normalize StdLex (PreorderAST_new StdLex (BinaryOperator BO_Add (DeclRefExpr p) (DeclRefExpr i)))"
    by (simp add: Normalize_var_plus_var min.commute max.commute)
  have b: "DerefOffsetBetween StdLex
             (BinaryOperator BO_Add (DeclRefExpr p) (DeclRefExpr i))
             (BinaryOperator BO_Add (DeclRefExpr i) (DeclRefExpr p)) = Some 0"
    unfolding DerefOffsetBetween_def a
    by (simp add: Normalize_var_plus_var GetDerefOffset_var_var del: StdLex_simps)
  have c: "DerefOffsetBetween StdLex
             (BinaryOperator BO_Add (DeclRefExpr p) (DeclRefExpr i))
             (GetWidenedExpr (BinaryOperator BO_Add (DeclRefExpr i) (DeclRefExpr p)) 1) = Some 1"
    unfolding DerefOffsetBetween_def GetWidenedExpr_def
    by (simp add: Normalize_var_plus_var Normalize_var_plus_var_plus_one GetDerefOffset_var_var
             del: StdLex_simps)
  from b c show ?thesis by (simp add: WidenedUpperBoundOffset_def)
qed

text \<open>C1 on the declarations numbered 0 and 1, as in the function \<^verbatim>\<open>f1\<close> of the test.\<close>

theorem C1_f1_witness:
  "WidenedUpperBoundOffset StdLex
     (BinaryOperator BO_Add (DeclRefExpr 0) (DeclRefExpr 1))
     (BinaryOperator BO_Add (DeclRefExpr 1) (DeclRefExpr 0)) = Some 1
   \<and> Root (Normalize StdLex (PreorderAST_new StdLex
        (BinaryOperator BO_Add (DeclRefExpr 1) (DeclRefExpr 0)))) =
       Root (Normalize StdLex (PreorderAST_new StdLex
        (BinaryOperator BO_Add (DeclRefExpr 0) (DeclRefExpr 1))))"
proof -
  have "Root (Normalize StdLex (PreorderAST_new StdLex
        (BinaryOperator BO_Add (DeclRefExpr 1) (DeclRefExpr 0)))) =
       Root (Normalize StdLex (PreorderAST_new StdLex
        (BinaryOperator BO_Add (DeclRefExpr 0) (DeclRefExpr 1))))"
    by code_simp
  with C1_dereference_at_upper_bound_widens_by_one [of 0 1] show ?thesis by simp
qed

end
